theory Spec2Isabelle
  imports Main
begin

section \<open>Python and NumPy primitives used by the entropy coder\<close>

text \<open>
  The module \<^verbatim>\<open>src/compression/entropy_coding.py\<close> is modelled function by function,
  under the names of the source without their leading underscore. A Python exception is
  a value of type \<open>error\<close>; a call that may raise returns \<open>error + 'a\<close>, with \<open>Inl\<close>
  for the exception.
\<close>

datatype error = AssertionError | IndexError | ValueError | TypeError

definition ebind :: "error + 'a \<Rightarrow> ('a \<Rightarrow> error + 'b) \<Rightarrow> error + 'b" where
  "ebind m f = (case m of Inl e \<Rightarrow> Inl e | Inr x \<Rightarrow> f x)"

definition py_assert :: "bool \<Rightarrow> error + unit" where
  "py_assert b = (if b then Inr () else Inl AssertionError)"

text \<open>
  \<^verbatim>\<open>xs[i]\<close> on a list or a NumPy array: a negative index counts from the end, an
  index outside \<open>[-len, len)\<close> raises IndexError.
\<close>

definition getitem :: "'a list \<Rightarrow> int \<Rightarrow> error + 'a" where
  "getitem xs i =
     (if 0 \<le> i \<and> i < int (length xs) then Inr (xs ! nat i)
      else if i < 0 \<and> - int (length xs) \<le> i then Inr (xs ! nat (int (length xs) + i))
      else Inl IndexError)"

text \<open>\<^verbatim>\<open>xs[:n]\<close>: a negative bound counts from the end, and the slice never raises.\<close>

definition slice_to :: "'a list \<Rightarrow> int \<Rightarrow> 'a list" where
  "slice_to xs n = (if 0 \<le> n then take (nat n) xs else take (nat (int (length xs) + n)) xs)"

text \<open>
  \<^verbatim>\<open>np.searchsorted(a, v, side='right')\<close> for a scalar \<open>v\<close>: NumPy's binary search, which
  moves the upper bound when \<open>v < a[mid]\<close> and the lower bound otherwise. It is written
  as the loop it is, so that the model also says what happens on an unsorted array.
\<close>

function binsearch_right :: "int list \<Rightarrow> int \<Rightarrow> nat \<Rightarrow> nat \<Rightarrow> nat" where
  "binsearch_right a key lo hi =
     (if lo < hi then
        (let mid = lo + (hi - lo) div 2 in
         if key < a ! mid then binsearch_right a key lo mid
         else binsearch_right a key (mid + 1) hi)
      else lo)"
  by pat_completeness auto
termination
  by (relation "measure (\<lambda>(a, key, lo, hi). hi - lo)") auto

declare binsearch_right.simps [simp del]

definition searchsorted_right :: "int list \<Rightarrow> int \<Rightarrow> nat" where
  "searchsorted_right a v = binsearch_right a v 0 (length a)"

text \<open>
  \<^verbatim>\<open>x.astype(np.int32)\<close> on an integer: the value is reduced to 32-bit two's complement.
\<close>

definition astype_int32 :: "int \<Rightarrow> int" where
  "astype_int32 x = (x + 2 ^ 31) mod 2 ^ 32 - 2 ^ 31"

text \<open>
  A NumPy array is its shape and its elements in row-major order, which is what
  \<^verbatim>\<open>flatten()\<close> returns. The arrays a caller passes hold integers; the array a
  function allocates itself carries its element type as well.
\<close>

record 'a ndarray =
  shape :: "nat list"
  flat :: "'a list"

datatype dtype = Float64 | Int32 | Int64 | UInt64

record 'a typed_ndarray = "'a ndarray" +
  dtype :: dtype

section \<open>Module constants\<close>

definition OVERFLOW_WIDTH :: nat where
  "OVERFLOW_WIDTH = 4"

definition OVERFLOW_CODE :: int where
  "OVERFLOW_CODE = 2 ^ (2 ^ OVERFLOW_WIDTH)"

section \<open>The stack coder interface\<close>

text \<open>
  The module \<^verbatim>\<open>src.compression.ans\<close> (imported as \<^verbatim>\<open>vrans\<close>) is not part of the
  sources. The functions of \<^verbatim>\<open>entropy_coding.py\<close> take its operations as a parameter:
  a record of the five functions the scalar coder calls. \<open>vrans_pop\<close> returns the
  cumulative frequency read from the register together with the completion step, as the
  Python returns \<^verbatim>\<open>(cf, pop_fun)\<close>.
\<close>

record 'm vrans =
  vrans_empty_message :: "nat list \<Rightarrow> 'm"
  vrans_push :: "'m \<Rightarrow> int \<Rightarrow> int \<Rightarrow> nat \<Rightarrow> error + 'm"
  vrans_pop :: "'m \<Rightarrow> nat \<Rightarrow> int \<times> (int \<Rightarrow> int \<Rightarrow> error + 'm)"
  vrans_flatten :: "'m \<Rightarrow> int list"
  vrans_unflatten_scalar :: "int list \<Rightarrow> error + 'm"

section \<open>The generic symbol codec\<close>

record 'm codec =
  push :: "'m \<Rightarrow> int \<Rightarrow> error + 'm"
  pop :: "'m \<Rightarrow> error + ('m \<times> int)"

text \<open>
  \<^verbatim>\<open>base_codec\<close> returns the warnings it emitted (\<^verbatim>\<open>warn\<close> does not raise) and the
  \<^verbatim>\<open>Codec(push, pop)\<close> pair.
\<close>

definition base_codec ::
  "'m vrans \<Rightarrow> (int \<Rightarrow> error + int \<times> int) \<Rightarrow> (int \<Rightarrow> int) \<Rightarrow> nat \<Rightarrow> string list \<times> 'm codec" where
  "base_codec V enc_statfun dec_statfun precision =
     ((if 24 \<le> precision
       then [''Detected precision over 28. Codecs lose accuracy at high precision.'']
       else []),
      \<lparr>push = (\<lambda>message symbol.
          ebind (enc_statfun symbol) (\<lambda>(start, freq).
          vrans_push V message start freq precision)),
       pop = (\<lambda>message.
          case vrans_pop V message precision of (cf, pop_fun) \<Rightarrow>
            (let symbol = dec_statfun cf in
             ebind (enc_statfun symbol) (\<lambda>(start, freq).
             ebind (py_assert (start \<le> cf \<and> cf < start + freq)) (\<lambda>_.
             ebind (pop_fun start freq) (\<lambda>message'.
             Inr (message', symbol))))))\<rparr>)"

section \<open>The indexed CDF accessor\<close>

text \<open>
  \<^verbatim>\<open>_indexed_cdf_to_enc_statfun\<close>: the index \<^verbatim>\<open>int(value + np.uint64(1))\<close> is
  \<open>value + 1\<close>. \<^verbatim>\<open>_indexed_cdf_to_dec_statfun\<close>: the assertion on the last entry of
  the truncated row comes before the lookup is returned.
\<close>

definition indexed_cdf_to_enc_statfun :: "int list \<Rightarrow> int \<Rightarrow> error + int \<times> int" where
  "indexed_cdf_to_enc_statfun cdf_i value =
     ebind (getitem cdf_i value) (\<lambda>lower.
     ebind (getitem cdf_i (value + 1)) (\<lambda>upper.
     Inr (lower, upper - lower)))"

definition indexed_cdf_to_dec_statfun :: "int list \<Rightarrow> int \<Rightarrow> error + (int \<Rightarrow> int)" where
  "indexed_cdf_to_dec_statfun cdf_i cdf_i_length =
     (let cdf_t = slice_to cdf_i cdf_i_length in
      ebind (getitem cdf_t (- 1)) (\<lambda>term.
      ebind (py_assert (term = OVERFLOW_CODE \<or> term = 2 ^ OVERFLOW_WIDTH)) (\<lambda>_.
      Inr (\<lambda>cum_freq. int (searchsorted_right cdf_t cum_freq) - 1))))"

section \<open>The scalar orchestrator\<close>

text \<open>
  Lines 192 to 199 of \<^verbatim>\<open>ans_index_encoder\<close>: the shifted value and the overflow
  integer after the \<^verbatim>\<open>if\<close>/\<^verbatim>\<open>elif\<close>; \<^verbatim>\<open>overflow\<close> starts at 0. The arrays
  \<^verbatim>\<open>cdf_offset\<close> and \<^verbatim>\<open>cdf_length\<close> come from the caller with a dtype of the
  caller's choice, so the arithmetic after the int32 cast of the symbols is that of
  Python integers.
\<close>

definition clamp_to_escape :: "int \<Rightarrow> int \<Rightarrow> int \<times> int" where
  "clamp_to_escape value max_value =
     (if value < 0 then (max_value, - 2 * value - 1)
      else if value \<ge> max_value then (max_value, 2 * (value - max_value))
      else (value, 0))"

text \<open>
  One iteration of the encoder's loop. \<^verbatim>\<open>cdf\<close> is a rectangular two-dimensional
  array given as the list of its rows: \<^verbatim>\<open>cdf.shape[0]\<close> is the number of rows and
  \<^verbatim>\<open>cdf.shape[1]\<close> the length of any row. The body of
  \<^verbatim>\<open>if value == max_value\<close> is \<^verbatim>\<open>pass\<close>: the pushes of the overflow digits are
  commented out in the source.
\<close>

definition ans_index_encoder_step ::
  "'m vrans \<Rightarrow> int list \<Rightarrow> int list \<Rightarrow> int list list \<Rightarrow> int list \<Rightarrow> int list \<Rightarrow> nat \<Rightarrow>
   'm \<Rightarrow> nat \<Rightarrow> error + 'm" where
  "ans_index_encoder_step V symbols indices cdf cdf_length cdf_offset precision message i =
     ebind (getitem indices (int i)) (\<lambda>cdf_index.
     ebind (getitem cdf cdf_index) (\<lambda>cdf_i.
     ebind (getitem cdf_length cdf_index) (\<lambda>cdf_length_i.
     ebind (py_assert (0 \<le> cdf_index \<and> cdf_index < int (length cdf))) (\<lambda>_.
     let max_value = cdf_length_i - 2 in
     ebind (py_assert (0 \<le> max_value \<and> max_value < int (length cdf_i) - 1)) (\<lambda>_.
     ebind (getitem symbols (int i)) (\<lambda>value.
     ebind (getitem cdf_offset cdf_index) (\<lambda>offset.
     let (value, overflow) = clamp_to_escape (value - offset) max_value in
     ebind (py_assert (0 \<le> value \<and> value < cdf_length_i - 1)) (\<lambda>_.
     let enc_statfun = indexed_cdf_to_enc_statfun cdf_i in
     ebind (indexed_cdf_to_dec_statfun cdf_i cdf_length_i) (\<lambda>dec_statfun.
     let (warnings, symbol_codec) = base_codec V enc_statfun dec_statfun precision in
     ebind (push symbol_codec message value) (\<lambda>message.
     if value = max_value then Inr message else Inr message))))))))))"

text \<open>The loop over the positions, in the order the list gives them.\<close>

fun ans_index_encoder_loop ::
  "'m vrans \<Rightarrow> int list \<Rightarrow> int list \<Rightarrow> int list list \<Rightarrow> int list \<Rightarrow> int list \<Rightarrow> nat \<Rightarrow>
   nat list \<Rightarrow> 'm \<Rightarrow> error + 'm" where
  "ans_index_encoder_loop V symbols indices cdf cdf_length cdf_offset precision [] message =
     Inr message"
| "ans_index_encoder_loop V symbols indices cdf cdf_length cdf_offset precision (i # rest) message =
     ebind (ans_index_encoder_step V symbols indices cdf cdf_length cdf_offset precision message i)
       (ans_index_encoder_loop V symbols indices cdf cdf_length cdf_offset precision rest)"

text \<open>
  \<^verbatim>\<open>ans_index_encoder\<close>. The positions are \<^verbatim>\<open>reversed(range(len(indices)))\<close>. The
  overflow codec is built before the loop and never used; building it can raise. The
  result is the pair \<^verbatim>\<open>(encoded, coding_shape)\<close>.
\<close>

definition ans_index_encoder ::
  "'m vrans \<Rightarrow> int ndarray \<Rightarrow> int ndarray \<Rightarrow> int list list \<Rightarrow> int list \<Rightarrow> int list \<Rightarrow> nat \<Rightarrow>
   nat \<Rightarrow> error + int list \<times> nat list" where
  "ans_index_encoder V symbols indices cdf cdf_length cdf_offset precision overflow_width =
     (let message = vrans_empty_message V [];
          coding_shape = drop 1 (shape symbols);
          symbols_flat = map astype_int32 (flat symbols);
          indices_flat = map astype_int32 (flat indices);
          max_overflow = (2 :: int) ^ overflow_width - 1;
          overflow_cdf_size = 2 ^ overflow_width + 1;
          overflow_cdf = map int [0..<overflow_cdf_size];
          enc_statfun_overflow = indexed_cdf_to_enc_statfun overflow_cdf
      in
      ebind (indexed_cdf_to_dec_statfun overflow_cdf (int (length overflow_cdf)))
        (\<lambda>dec_statfun_overflow.
      let (warnings, overflow_codec) =
            base_codec V enc_statfun_overflow dec_statfun_overflow overflow_width
      in
      ebind (ans_index_encoder_loop V symbols_flat indices_flat cdf cdf_length cdf_offset
               precision (rev [0..<length indices_flat]) message) (\<lambda>message.
      let encoded = vrans_flatten V message in
      Inr (encoded, coding_shape))))"

text \<open>\<^verbatim>\<open>xs[i] = v\<close> on a NumPy array.\<close>

definition setitem :: "'a list \<Rightarrow> int \<Rightarrow> 'a \<Rightarrow> error + 'a list" where
  "setitem xs i v =
     (if 0 \<le> i \<and> i < int (length xs) then Inr (xs[nat i := v])
      else if i < 0 \<and> - int (length xs) \<le> i then Inr (xs[nat (int (length xs) + i) := v])
      else Inl IndexError)"

text \<open>
  One iteration of the decoder's loop, on the pair of the message and the output array.
  The body of \<^verbatim>\<open>if value == max_value\<close> is \<^verbatim>\<open>pass\<close> here too.
\<close>

definition ans_index_decoder_step ::
  "'m vrans \<Rightarrow> int list \<Rightarrow> int list list \<Rightarrow> int list \<Rightarrow> int list \<Rightarrow> nat \<Rightarrow>
   'm \<times> int list \<Rightarrow> nat \<Rightarrow> error + 'm \<times> int list" where
  "ans_index_decoder_step V indices cdf cdf_length cdf_offset precision state i =
     (case state of (message, decoded) \<Rightarrow>
     ebind (getitem indices (int i)) (\<lambda>cdf_index.
     ebind (getitem cdf cdf_index) (\<lambda>cdf_i.
     ebind (getitem cdf_length cdf_index) (\<lambda>cdf_length_i.
     ebind (py_assert (0 \<le> cdf_index \<and> cdf_index < int (length cdf))) (\<lambda>_.
     let max_value = cdf_length_i - 2 in
     ebind (py_assert (0 \<le> max_value \<and> max_value < int (length cdf_i) - 1)) (\<lambda>_.
     let enc_statfun = indexed_cdf_to_enc_statfun cdf_i in
     ebind (indexed_cdf_to_dec_statfun cdf_i cdf_length_i) (\<lambda>dec_statfun.
     let (warnings, symbol_codec) = base_codec V enc_statfun dec_statfun precision in
     ebind (pop symbol_codec message) (\<lambda>(message, value).
     let value = (if value = max_value then value else value) in
     ebind (getitem cdf_offset cdf_index) (\<lambda>offset.
     let symbol = value + offset in
     ebind (setitem decoded (int i) symbol) (\<lambda>decoded.
     Inr (message, decoded)))))))))))"

fun ans_index_decoder_loop ::
  "'m vrans \<Rightarrow> int list \<Rightarrow> int list list \<Rightarrow> int list \<Rightarrow> int list \<Rightarrow> nat \<Rightarrow>
   nat list \<Rightarrow> 'm \<times> int list \<Rightarrow> error + 'm \<times> int list" where
  "ans_index_decoder_loop V indices cdf cdf_length cdf_offset precision [] state = Inr state"
| "ans_index_decoder_loop V indices cdf cdf_length cdf_offset precision (i # rest) state =
     ebind (ans_index_decoder_step V indices cdf cdf_length cdf_offset precision state i)
       (ans_index_decoder_loop V indices cdf cdf_length cdf_offset precision rest)"

text \<open>
  \<^verbatim>\<open>ans_index_decoder\<close>. \<^verbatim>\<open>np.empty(indices.shape).flatten()\<close> is a float64 array with
  one cell per index position; every cell is written before the array is returned, so
  the initial content (arbitrary in NumPy) is 0 here. A cell holds the integer that was
  stored in it: float64 represents every integer up to \<open>2 ^ 53\<close> in absolute value, and
  the rounding of larger ones is not modelled. \<^verbatim>\<open>coding_shape\<close> is a parameter that the
  body never reads.
\<close>

definition ans_index_decoder ::
  "'m vrans \<Rightarrow> int list \<Rightarrow> int ndarray \<Rightarrow> int list list \<Rightarrow> int list \<Rightarrow> int list \<Rightarrow> nat \<Rightarrow>
   nat list \<Rightarrow> nat \<Rightarrow> error + int typed_ndarray" where
  "ans_index_decoder V encoded indices cdf cdf_length cdf_offset precision coding_shape
     overflow_width =
     ebind (vrans_unflatten_scalar V encoded) (\<lambda>message.
     let decoded = replicate (prod_list (shape indices)) (0 :: int);
         indices_flat = map astype_int32 (flat indices);
         max_overflow = (2 :: int) ^ overflow_width - 1;
         overflow_cdf_size = 2 ^ overflow_width + 1;
         overflow_cdf = map int [0..<overflow_cdf_size];
         enc_statfun_overflow = indexed_cdf_to_enc_statfun overflow_cdf
     in
     ebind (indexed_cdf_to_dec_statfun overflow_cdf (int (length overflow_cdf)))
       (\<lambda>dec_statfun_overflow.
     let (warnings, overflow_codec) =
           base_codec V enc_statfun_overflow dec_statfun_overflow overflow_width
     in
     ebind (ans_index_decoder_loop V indices_flat cdf cdf_length cdf_offset precision
              [0..<length indices_flat] (message, decoded)) (\<lambda>(message, decoded).
     Inr \<lparr>shape = [length decoded], flat = decoded, dtype = Float64\<rparr>)))"

section \<open>A stack coder\<close>

text \<open>
  Modelled from the spec: the stack coder core, module \<^verbatim>\<open>src.compression.ans\<close>
  (\<^verbatim>\<open>vrans\<close>), whose file is not among the sources. The spec (section 4.1) describes a
  renormalizing register with a backing buffer of words: \<^verbatim>\<open>push\<close> folds the interval
  \<open>[start, start + freq)\<close> out of \<open>2 ^ precision\<close> into the register and emits a word
  when the register would leave its valid range; \<^verbatim>\<open>pop\<close> returns the register's
  cumulative frequency and a completion step that undoes the push and pulls a word back
  when the register falls below the range; a malformed interval is fatal; serializing
  and deserializing are inverse. The register's range \<open>[2 ^ 31, 2 ^ 63)\<close> and the
  32-bit words are those of the two implementations the module's header names. The
  serialized form is the register's high and low word followed by the buffer, top first.
\<close>

record message =
  head :: int
  tail :: "int list"

text \<open>Modelled from the spec: the lower end of the register's valid range.\<close>

definition rans_l :: int where
  "rans_l = 2 ^ 31"

text \<open>
  Modelled from the spec: \<^verbatim>\<open>vrans.empty_message\<close>, the register at the lower end of
  its range and an empty buffer.
\<close>

definition rans_empty_message :: "nat list \<Rightarrow> message" where
  "rans_empty_message shp = \<lparr>head = rans_l, tail = []\<rparr>"

text \<open>
  Modelled from the spec: \<^verbatim>\<open>vrans.push\<close>. A register at or above
  \<open>2 ^ (63 - precision) * freq\<close> first emits its low word.
\<close>

definition rans_push :: "message \<Rightarrow> int \<Rightarrow> int \<Rightarrow> nat \<Rightarrow> error + message" where
  "rans_push x start freq precision =
     (if start < 0 \<or> freq \<le> 0 \<or> 2 ^ precision < start + freq then Inl ValueError
      else
        (let x = (if head x \<ge> (rans_l div 2 ^ precision) * 2 ^ 32 * freq
                  then \<lparr>head = head x div 2 ^ 32, tail = head x mod 2 ^ 32 # tail x\<rparr>
                  else x)
         in Inr \<lparr>head = (head x div freq) * 2 ^ precision + head x mod freq + start,
                 tail = tail x\<rparr>))"

text \<open>
  Modelled from the spec: \<^verbatim>\<open>vrans.pop\<close>, the cumulative frequency and the
  completion step.
\<close>

definition rans_pop :: "message \<Rightarrow> nat \<Rightarrow> int \<times> (int \<Rightarrow> int \<Rightarrow> error + message)" where
  "rans_pop x precision =
     (let cf = head x mod 2 ^ precision in
      (cf,
       \<lambda>start freq.
         if start < 0 \<or> freq \<le> 0 \<or> cf < start then Inl ValueError
         else
           (let h = freq * (head x div 2 ^ precision) + cf - start in
            if h < rans_l then
              (case tail x of
                 [] \<Rightarrow> Inl IndexError
               | w # ws \<Rightarrow> Inr \<lparr>head = h * 2 ^ 32 + w, tail = ws\<rparr>)
            else Inr \<lparr>head = h, tail = tail x\<rparr>)))"

text \<open>Modelled from the spec: \<^verbatim>\<open>vrans.flatten\<close>.\<close>

definition rans_flatten :: "message \<Rightarrow> int list" where
  "rans_flatten x = [head x div 2 ^ 32, head x mod 2 ^ 32] @ tail x"

text \<open>Modelled from the spec: \<^verbatim>\<open>vrans.unflatten_scalar\<close>.\<close>

definition rans_unflatten_scalar :: "int list \<Rightarrow> error + message" where
  "rans_unflatten_scalar arr =
     (case arr of
        hi # lo # ws \<Rightarrow> Inr \<lparr>head = hi * 2 ^ 32 + lo, tail = ws\<rparr>
      | _ \<Rightarrow> Inl IndexError)"

text \<open>Modelled from the spec: the module \<^verbatim>\<open>vrans\<close> as the scalar coder uses it.\<close>

definition rans :: "message vrans" where
  "rans = \<lparr>vrans_empty_message = rans_empty_message, vrans_push = rans_push,
           vrans_pop = rans_pop, vrans_flatten = rans_flatten,
           vrans_unflatten_scalar = rans_unflatten_scalar\<rparr>"

section \<open>Preconditions of the round trip\<close>

text \<open>
  What section 4.1 of the spec promises of the stack coder, for a given precision, on
  the messages that satisfy an invariant \<open>valid\<close> of the coder's choice: the empty message
  is valid; pushing an interval \<open>[start, start + freq)\<close> with \<open>0 < freq\<close> inside
  \<open>[0, 2 ^ precision]\<close> onto a valid message succeeds and gives a valid message, whose
  cumulative frequency lies in the interval and whose completion step with the same
  interval gives the message back; deserializing a serialized valid message gives it
  back.
\<close>

definition vrans_contract :: "('m \<Rightarrow> bool) \<Rightarrow> 'm vrans \<Rightarrow> nat \<Rightarrow> bool" where
  "vrans_contract valid V precision \<longleftrightarrow>
     valid (vrans_empty_message V []) \<and>
     (\<forall>m start freq. valid m \<and> 0 \<le> start \<and> 0 < freq \<and> start + freq \<le> 2 ^ precision \<longrightarrow>
        (\<exists>m'. vrans_push V m start freq precision = Inr m' \<and> valid m' \<and>
              start \<le> fst (vrans_pop V m' precision) \<and>
              fst (vrans_pop V m' precision) < start + freq \<and>
              snd (vrans_pop V m' precision) start freq = Inr m)) \<and>
     (\<forall>m. valid m \<longrightarrow> vrans_unflatten_scalar V (vrans_flatten V m) = Inr m)"

text \<open>
  A row that the scalar coder accepts at a given precision: between 2 and the table's
  width valid entries, non-decreasing from a non-negative first entry, and a last valid
  entry that is \<open>2 ^ 16\<close> or \<open>2 ^ 4\<close> and at most \<open>2 ^ precision\<close>.
\<close>

definition cdf_row_ok :: "int list \<Rightarrow> int \<Rightarrow> nat \<Rightarrow> bool" where
  "cdf_row_ok cdf_i cdf_length_i precision \<longleftrightarrow>
     2 \<le> cdf_length_i \<and> cdf_length_i \<le> int (length cdf_i) \<and>
     sorted (take (nat cdf_length_i) cdf_i) \<and> 0 \<le> cdf_i ! 0 \<and>
     (cdf_i ! (nat cdf_length_i - 1) = OVERFLOW_CODE \<or>
      cdf_i ! (nat cdf_length_i - 1) = 2 ^ OVERFLOW_WIDTH) \<and>
     cdf_i ! (nat cdf_length_i - 1) \<le> 2 ^ precision"

text \<open>
  A position that the round trip covers: the symbol and the index are int32 values, the
  index selects a row of the table, of \<^verbatim>\<open>cdf_length\<close> and of \<^verbatim>\<open>cdf_offset\<close>, the row
  is accepted, and the shifted value lies in \<open>[0, cdf_length - 2)\<close> in a bin of positive
  frequency.
\<close>

definition position_ok ::
  "int list list \<Rightarrow> int list \<Rightarrow> int list \<Rightarrow> nat \<Rightarrow> int \<Rightarrow> int \<Rightarrow> bool" where
  "position_ok cdf cdf_length cdf_offset precision symbol cdf_index \<longleftrightarrow>
     - (2 ^ 31) \<le> symbol \<and> symbol < 2 ^ 31 \<and>
     0 \<le> cdf_index \<and> cdf_index < 2 ^ 31 \<and> cdf_index < int (length cdf) \<and>
     cdf_index < int (length cdf_length) \<and> cdf_index < int (length cdf_offset) \<and>
     cdf_row_ok (cdf ! nat cdf_index) (cdf_length ! nat cdf_index) precision \<and>
     0 \<le> symbol - cdf_offset ! nat cdf_index \<and>
     symbol - cdf_offset ! nat cdf_index < cdf_length ! nat cdf_index - 2 \<and>
     cdf ! nat cdf_index ! nat (symbol - cdf_offset ! nat cdf_index) <
       cdf ! nat cdf_index ! (nat (symbol - cdf_offset ! nat cdf_index) + 1)"

text \<open>The messages the stack coder above keeps valid.\<close>

definition rans_inv :: "message \<Rightarrow> bool" where
  "rans_inv x \<longleftrightarrow> rans_l \<le> head x \<and> head x < 2 ^ 63 \<and> list_all (\<lambda>w. 0 \<le> w \<and> w < 2 ^ 32) (tail x)"

text \<open>
  The last valid entry of the row that an index selects: \<^verbatim>\<open>cdf[i][cdf_length[i] - 1]\<close>.
\<close>

definition row_total :: "int list list \<Rightarrow> int list \<Rightarrow> int \<Rightarrow> int" where
  "row_total cdf cdf_length cdf_index =
     cdf ! nat cdf_index ! (nat (cdf_length ! nat cdf_index) - 1)"

section \<open>NumPy operations on arrays with a shape\<close>

definition np_map :: "('a \<Rightarrow> 'b) \<Rightarrow> 'a ndarray \<Rightarrow> 'b ndarray" where
  "np_map f a = \<lparr>shape = shape a, flat = map f (flat a)\<rparr>"

text \<open>
  Broadcasting aligns two shapes at their last axis: two extents must be equal or one
  of them 1, and a missing axis counts as 1. Both functions work on reversed shapes.
  \<open>source_index_rev\<close> gives, for the position \<open>k\<close> of the broadcast result, the
  position of the element of the source array that stands there.
\<close>

fun broadcast_rev :: "nat list \<Rightarrow> nat list \<Rightarrow> error + nat list" where
  "broadcast_rev [] ys = Inr ys"
| "broadcast_rev (x # xs) [] = Inr (x # xs)"
| "broadcast_rev (x # xs) (y # ys) =
     (if x = y \<or> y = 1 then ebind (broadcast_rev xs ys) (\<lambda>r. Inr (x # r))
      else if x = 1 then ebind (broadcast_rev xs ys) (\<lambda>r. Inr (y # r))
      else Inl ValueError)"

definition broadcast_shapes :: "nat list \<Rightarrow> nat list \<Rightarrow> error + nat list" where
  "broadcast_shapes s t = ebind (broadcast_rev (rev s) (rev t)) (\<lambda>r. Inr (rev r))"

fun source_index_rev :: "nat list \<Rightarrow> nat list \<Rightarrow> nat \<Rightarrow> nat" where
  "source_index_rev [] ss k = 0"
| "source_index_rev (r # rs) [] k = 0"
| "source_index_rev (r # rs) (s # ss) k =
     (if s = 1 then 0 else k mod r) + s * source_index_rev rs ss (k div r)"

definition broadcast_to :: "nat list \<Rightarrow> 'a ndarray \<Rightarrow> 'a list" where
  "broadcast_to r a =
     map (\<lambda>k. flat a ! source_index_rev (rev r) (rev (shape a)) k) [0..<prod_list r]"

text \<open>An elementwise operation of two arrays, such as \<^verbatim>\<open>a + b\<close> or \<^verbatim>\<open>a <= b\<close>.\<close>

definition np_binop ::
  "('a \<Rightarrow> 'b \<Rightarrow> 'c) \<Rightarrow> 'a ndarray \<Rightarrow> 'b ndarray \<Rightarrow> error + 'c ndarray" where
  "np_binop f a b =
     ebind (broadcast_shapes (shape a) (shape b)) (\<lambda>r.
     Inr \<lparr>shape = r, flat = map2 f (broadcast_to r a) (broadcast_to r b)\<rparr>)"

definition np_where :: "bool ndarray \<Rightarrow> 'a ndarray \<Rightarrow> 'a ndarray \<Rightarrow> error + 'a ndarray" where
  "np_where c a b =
     ebind (np_binop Pair a b) (\<lambda>ab.
     np_binop (\<lambda>c xy. if c then fst xy else snd xy) c ab)"

definition np_all :: "bool ndarray \<Rightarrow> bool" where
  "np_all a = list_all id (flat a)"

definition np_squeeze :: "'a ndarray \<Rightarrow> 'a ndarray" where
  "np_squeeze a = \<lparr>shape = filter (\<lambda>d. d \<noteq> 1) (shape a), flat = flat a\<rparr>"

text \<open>The first error of a list of results, or all the values.\<close>

fun collect :: "(error + 'a) list \<Rightarrow> error + 'a list" where
  "collect [] = Inr []"
| "collect (x # xs) = ebind x (\<lambda>v. ebind (collect xs) (\<lambda>vs. Inr (v # vs)))"

text \<open>
  \<^verbatim>\<open>xs[idx]\<close> for an array \<open>idx\<close> of integers: the result has the shape of \<open>idx\<close>, and
  each index is read as \<^verbatim>\<open>xs[i]\<close> is. For the table \<^verbatim>\<open>cdf\<close>, whose elements are rows,
  the result has one more axis, of the table's width.
\<close>

definition np_take :: "'a list \<Rightarrow> int ndarray \<Rightarrow> error + 'a ndarray" where
  "np_take xs idx =
     ebind (collect (map (getitem xs) (flat idx))) (\<lambda>vs. Inr \<lparr>shape = shape idx, flat = vs\<rparr>)"

definition cdf_width :: "int list list \<Rightarrow> nat" where
  "cdf_width cdf = (case cdf of [] \<Rightarrow> 0 | row # _ \<Rightarrow> length row)"

definition np_take_rows :: "int list list \<Rightarrow> int ndarray \<Rightarrow> error + int ndarray" where
  "np_take_rows cdf idx =
     ebind (np_take cdf idx) (\<lambda>rows.
     Inr \<lparr>shape = shape idx @ [cdf_width cdf], flat = concat (flat rows)\<rparr>)"

text \<open>\<^verbatim>\<open>a[i]\<close> for an integer \<open>i\<close>: the \<open>i\<close>-th slice along the first axis.\<close>

definition np_getitem0 :: "'a ndarray \<Rightarrow> int \<Rightarrow> error + 'a ndarray" where
  "np_getitem0 a i =
     (case shape a of
        [] \<Rightarrow> Inl IndexError
      | d # rest \<Rightarrow>
          ebind (getitem [0..<d] i) (\<lambda>j.
          Inr \<lparr>shape = rest,
               flat = take (prod_list rest) (drop (j * prod_list rest) (flat a))\<rparr>))"

text \<open>\<^verbatim>\<open>np.reshape(a, (-1, w))\<close>: the rows of width \<open>w\<close>.\<close>

definition reshape_rows :: "'a list \<Rightarrow> nat \<Rightarrow> error + 'a list list" where
  "reshape_rows xs w =
     (if w = 0 \<or> length xs mod w \<noteq> 0 then Inl ValueError
      else Inr (map (\<lambda>k. take w (drop (k * w) xs)) [0..<length xs div w]))"

text \<open>
  \<^verbatim>\<open>np.take_along_axis(arr, np.expand_dims(idx, -1), axis=-1)\<close>: both arrays need the
  same number of axes, the axes before the last one broadcast, and each index is read
  in its row as \<^verbatim>\<open>row[i]\<close> is. The result keeps a last axis of extent 1.
\<close>

definition take_along_last_axis :: "int ndarray \<Rightarrow> int ndarray \<Rightarrow> error + int ndarray" where
  "take_along_last_axis arr idx =
     (case rev (shape arr) of
        [] \<Rightarrow> Inl ValueError
      | w # rcs \<Rightarrow>
          if length (shape idx) \<noteq> length rcs then Inl ValueError
          else
            ebind (reshape_rows (flat arr) w) (\<lambda>rows.
            ebind (np_binop getitem \<lparr>shape = rev rcs, flat = rows\<rparr> idx) (\<lambda>r.
            ebind (collect (flat r)) (\<lambda>vals.
            Inr \<lparr>shape = shape r @ [1], flat = vals\<rparr>))))"

text \<open>\<^verbatim>\<open>np.stack(arrays, axis=0)\<close>: at least one array, all of one shape.\<close>

definition np_stack :: "'a ndarray list \<Rightarrow> error + 'a ndarray" where
  "np_stack arrays =
     (case arrays of
        [] \<Rightarrow> Inl ValueError
      | a # _ \<Rightarrow>
          if list_all (\<lambda>b. shape b = shape a) arrays
          then Inr \<lparr>shape = length arrays # shape a, flat = concat (map flat arrays)\<rparr>
          else Inl ValueError)"

section \<open>The vectorized CDF accessor\<close>

definition vec_indexed_cdf_to_enc_statfun ::
  "int ndarray \<Rightarrow> int ndarray \<Rightarrow> error + int ndarray \<times> int ndarray" where
  "vec_indexed_cdf_to_enc_statfun cdf_i value =
     ebind (take_along_last_axis cdf_i value) (\<lambda>lower.
     let lower = np_squeeze lower in
     ebind (take_along_last_axis cdf_i (np_map (\<lambda>v. v + 1) value)) (\<lambda>upper.
     let upper = np_squeeze upper in
     ebind (np_binop (-) upper lower) (\<lambda>freq.
     Inr (lower, freq))))"

text \<open>
  \<^verbatim>\<open>_vec_indexed_cdf_to_dec_statfun\<close>. The starred assignment needs at least one axis.
  \<^verbatim>\<open>zip\<close> stops at the shorter of its arguments, and \<^verbatim>\<open>np.reshape\<close> of the symbols to
  the coding shape raises unless there is one symbol per position of that shape. There
  is no assertion on a row's last entry here.
\<close>

definition vec_indexed_cdf_to_dec_statfun ::
  "int ndarray \<Rightarrow> int ndarray \<Rightarrow> error + (int ndarray \<Rightarrow> error + int ndarray)" where
  "vec_indexed_cdf_to_dec_statfun cdf_i cdf_i_length =
     (case rev (shape cdf_i) of
        [] \<Rightarrow> Inl ValueError
      | max_cdf_length # rev_coding_shape \<Rightarrow>
          (let coding_shape = rev rev_coding_shape in
           ebind (reshape_rows (flat cdf_i) max_cdf_length) (\<lambda>cdf_i_flat.
           let cdf_i_flat_ragged =
                 map (\<lambda>(c, l). slice_to c l) (zip cdf_i_flat (flat cdf_i_length))
           in
           Inr (\<lambda>value.
             ebind (py_assert (shape value = coding_shape)) (\<lambda>_.
             let sym_flat =
                   map (\<lambda>(cb, v_i). int (searchsorted_right cb v_i) - 1)
                     (zip cdf_i_flat_ragged (flat value))
             in
             if length sym_flat = prod_list coding_shape
             then Inr \<lparr>shape = coding_shape, flat = sym_flat\<rparr>
             else Inl ValueError)))))"

section \<open>The clamping of the vectorized encoder\<close>

text \<open>
  Lines 265 to 273 of \<^verbatim>\<open>vec_ans_index_encoder\<close>: the shifted values and the overflow
  integers after the two masked updates. The second mask is computed from the values
  that the first update has already clamped.
\<close>

definition vec_clamp_to_escape ::
  "int ndarray \<Rightarrow> int ndarray \<Rightarrow> error + int ndarray \<times> int ndarray" where
  "vec_clamp_to_escape values max_value =
     (let overflow = np_map (\<lambda>_. 0) values;
          of_mask = np_map (\<lambda>v. v < 0) values
      in
      ebind (np_where of_mask (np_map (\<lambda>v. - 2 * v - 1) values) overflow) (\<lambda>overflow.
      ebind (np_where of_mask max_value values) (\<lambda>values.
      ebind (np_binop (\<lambda>v m. v \<ge> m) values max_value) (\<lambda>of_mask.
      ebind (np_binop (\<lambda>v m. 2 * (v - m)) values max_value) (\<lambda>twice.
      ebind (np_where of_mask twice overflow) (\<lambda>overflow.
      ebind (np_where of_mask max_value values) (\<lambda>values.
      Inr (values, overflow))))))))"

section \<open>The symbol lookup in the spec's words\<close>

text \<open>
  Section 4.3 of the spec: \<open>i\<close> is the rightmost index, among the row's first \<open>n\<close>
  entries, whose entry is at most \<open>cum_freq\<close>; and \<open>i\<close> is an index with
  \<open>row[i] \<le> cum_freq < row[i + 1]\<close>, both entries among the first \<open>n\<close>.
\<close>

definition rightmost_index :: "int list \<Rightarrow> int \<Rightarrow> int \<Rightarrow> int \<Rightarrow> bool" where
  "rightmost_index row n cum_freq i \<longleftrightarrow>
     0 \<le> i \<and> i < n \<and> row ! nat i \<le> cum_freq \<and>
     (\<forall>j. int j < n \<and> row ! j \<le> cum_freq \<longrightarrow> int j \<le> i)"

definition interval_index :: "int list \<Rightarrow> int \<Rightarrow> int \<Rightarrow> int \<Rightarrow> bool" where
  "interval_index row n cum_freq i \<longleftrightarrow>
     0 \<le> i \<and> i + 1 < n \<and> row ! nat i \<le> cum_freq \<and> cum_freq < row ! (nat i + 1)"

section \<open>The vectorized decoder\<close>

text \<open>
  On arrays the module \<^verbatim>\<open>vrans\<close> works on a message with one register per position
  of the coding shape. The vectorized functions take its operations as a parameter too:
  \<^verbatim>\<open>unflatten\<close>, \<^verbatim>\<open>push\<close> and \<^verbatim>\<open>pop\<close> at arrays of starts and frequencies.
\<close>

record 'm vec_vrans =
  vrans_unflatten :: "int list \<Rightarrow> nat list \<Rightarrow> error + 'm"
  vrans_vec_push :: "'m \<Rightarrow> int ndarray \<Rightarrow> int ndarray \<Rightarrow> nat \<Rightarrow> error + 'm"
  vrans_vec_pop :: "'m \<Rightarrow> nat \<Rightarrow> int ndarray \<times> (int ndarray \<Rightarrow> int ndarray \<Rightarrow> error + 'm)"

record 'm vec_codec =
  vec_push :: "'m \<Rightarrow> int ndarray \<Rightarrow> error + 'm"
  vec_pop :: "'m \<Rightarrow> error + ('m \<times> int ndarray)"

text \<open>
  \<^verbatim>\<open>base_codec\<close> at lookups on arrays: the same function, where \<^verbatim>\<open>np.all\<close> ranges over
  the elementwise comparisons and \<^verbatim>\<open>and\<close> does not evaluate its second operand when
  the first is false.
\<close>

definition vec_base_codec ::
  "'m vec_vrans \<Rightarrow> (int ndarray \<Rightarrow> error + int ndarray \<times> int ndarray) \<Rightarrow>
   (int ndarray \<Rightarrow> error + int ndarray) \<Rightarrow> nat \<Rightarrow> string list \<times> 'm vec_codec" where
  "vec_base_codec V enc_statfun dec_statfun precision =
     ((if 24 \<le> precision
       then [''Detected precision over 28. Codecs lose accuracy at high precision.'']
       else []),
      \<lparr>vec_push = (\<lambda>message symbol.
          ebind (enc_statfun symbol) (\<lambda>(start, freq).
          vrans_vec_push V message start freq precision)),
       vec_pop = (\<lambda>message.
          case vrans_vec_pop V message precision of (cf, pop_fun) \<Rightarrow>
            ebind (dec_statfun cf) (\<lambda>symbol.
            ebind (enc_statfun symbol) (\<lambda>(start, freq).
            ebind (np_binop (\<le>) start cf) (\<lambda>below.
            ebind (if np_all below
                   then ebind (np_binop (+) start freq) (\<lambda>upper.
                        ebind (np_binop (<) cf upper) (\<lambda>above.
                        py_assert (np_all above)))
                   else Inl AssertionError) (\<lambda>_.
            ebind (pop_fun start freq) (\<lambda>message'.
            Inr (message', symbol)))))))\<rparr>)"

text \<open>
  The module \<^verbatim>\<open>compression_utils\<close> is not part of the sources either; the two
  functions that the decoder calls on a single lane are a parameter.
\<close>

record 'u compression_utils =
  decompose :: "int ndarray \<Rightarrow> nat \<Rightarrow> error + int ndarray \<times> 'u"
  reconstitute :: "int ndarray \<Rightarrow> nat list \<Rightarrow> 'u \<Rightarrow> error + int ndarray"

text \<open>\<^verbatim>\<open>len(a)\<close>: the extent of the first axis.\<close>

definition np_len :: "'a ndarray \<Rightarrow> error + nat" where
  "np_len a = (case shape a of [] \<Rightarrow> Inl TypeError | d # _ \<Rightarrow> Inr d)"

text \<open>One iteration of the decoder's loop, on the message and the list of symbols.\<close>

definition vec_ans_index_decoder_step ::
  "'m vec_vrans \<Rightarrow> int ndarray \<Rightarrow> int list list \<Rightarrow> int list \<Rightarrow> int list \<Rightarrow> nat \<Rightarrow>
   'm \<times> int ndarray list \<Rightarrow> nat \<Rightarrow> error + 'm \<times> int ndarray list" where
  "vec_ans_index_decoder_step V cdf_index cdf cdf_length cdf_offset precision state i =
     (case state of (message, symbols) \<Rightarrow>
     ebind (np_getitem0 cdf_index (int i)) (\<lambda>cdf_index_i.
     ebind (np_take_rows cdf cdf_index_i) (\<lambda>cdf_i.
     ebind (np_take cdf_length cdf_index_i) (\<lambda>cdf_length_i.
     let enc_statfun = vec_indexed_cdf_to_enc_statfun cdf_i in
     ebind (vec_indexed_cdf_to_dec_statfun cdf_i cdf_length_i) (\<lambda>dec_statfun.
     let (warnings, symbol_codec) = vec_base_codec V enc_statfun dec_statfun precision in
     ebind (vec_pop symbol_codec message) (\<lambda>(message, value).
     ebind (np_take cdf_offset cdf_index_i) (\<lambda>offsets.
     ebind (np_binop (+) value offsets) (\<lambda>symbol.
     Inr (message, symbols @ [symbol])))))))))"

fun vec_ans_index_decoder_loop ::
  "'m vec_vrans \<Rightarrow> int ndarray \<Rightarrow> int list list \<Rightarrow> int list \<Rightarrow> int list \<Rightarrow> nat \<Rightarrow>
   nat list \<Rightarrow> 'm \<times> int ndarray list \<Rightarrow> error + 'm \<times> int ndarray list" where
  "vec_ans_index_decoder_loop V cdf_index cdf cdf_length cdf_offset precision [] state =
     Inr state"
| "vec_ans_index_decoder_loop V cdf_index cdf cdf_length cdf_offset precision (i # rest) state =
     ebind (vec_ans_index_decoder_step V cdf_index cdf cdf_length cdf_offset precision state i)
       (vec_ans_index_decoder_loop V cdf_index cdf cdf_length cdf_offset precision rest)"

text \<open>
  \<^verbatim>\<open>vec_ans_index_decoder\<close>. The unpacking of the shape needs two axes. With one lane
  the indices are decomposed into patches first and the symbols reassembled at the
  end; with any other number of lanes the symbols are stacked.
\<close>

definition vec_ans_index_decoder ::
  "'m vec_vrans \<Rightarrow> 'u compression_utils \<Rightarrow> int list \<Rightarrow> int ndarray \<Rightarrow> int list list \<Rightarrow>
   int list \<Rightarrow> int list \<Rightarrow> nat \<Rightarrow> nat list \<Rightarrow> error + int ndarray" where
  "vec_ans_index_decoder V U encoded indices cdf cdf_length cdf_offset precision coding_shape =
     (let original_shape = shape indices in
      case original_shape of
        B # n_channels # _ \<Rightarrow>
          ebind (vrans_unflatten V encoded coding_shape) (\<lambda>message.
          let indices = np_map astype_int32 indices;
              cdf_index = indices
          in
          ebind (py_assert (np_all (np_map (\<lambda>i. 0 \<le> i) cdf_index) \<and>
                            np_all (np_map (\<lambda>i. i < int (length cdf)) cdf_index))) (\<lambda>_.
          ebind (np_take cdf_length cdf_index) (\<lambda>lengths.
          let max_value = np_map (\<lambda>l. l - 2) lengths in
          ebind (py_assert (np_all (np_map (\<lambda>m. 0 \<le> m) max_value) \<and>
                            np_all (np_map (\<lambda>m. m < int (cdf_width cdf) - 1) max_value))) (\<lambda>_.
          ebind (if B = 1
                 then ebind (decompose U indices n_channels) (\<lambda>(indices, unfolded_shape).
                      ebind (py_assert (drop 1 (shape indices) = coding_shape)) (\<lambda>_.
                      Inr (indices, Some unfolded_shape)))
                 else Inr (cdf_index, None)) (\<lambda>(cdf_index, unfolded).
          ebind (np_len cdf_index) (\<lambda>lanes.
          ebind (vec_ans_index_decoder_loop V cdf_index cdf cdf_length cdf_offset precision
                   [0..<lanes] (message, [])) (\<lambda>(message, symbols).
          ebind (np_stack symbols) (\<lambda>stacked.
          case unfolded of
            Some unfolded_shape \<Rightarrow> reconstitute U stacked original_shape unfolded_shape
          | None \<Rightarrow> Inr stacked))))))))
      | _ \<Rightarrow> Inl ValueError)"

section \<open>A stack coder on arrays\<close>

text \<open>
  Modelled from the spec: the stack coder core at arrays, again module
  \<^verbatim>\<open>src.compression.ans\<close>. A message has one register for every position of the coding
  shape and one buffer of words. The serialized form is the high words of the
  registers, their low words, and the buffer, top first. A push emits the low words of
  the registers that would leave the valid range, in the order of the positions; the
  completion step of a pop pulls as many words as registers fell below the range and
  gives them to those registers in the order of the positions.
\<close>

record vec_message =
  heads :: "int ndarray"
  words :: "int list"

text \<open>Modelled from the spec: \<^verbatim>\<open>vrans.unflatten\<close>.\<close>

definition rans_unflatten :: "int list \<Rightarrow> nat list \<Rightarrow> error + vec_message" where
  "rans_unflatten arr shp =
     (let size = prod_list shp in
      if length arr < 2 * size then Inl ValueError
      else Inr \<lparr>heads = \<lparr>shape = shp,
                           flat = map2 (\<lambda>hi lo. hi * 2 ^ 32 + lo) (take size arr)
                                    (take size (drop size arr))\<rparr>,
                 words = drop (2 * size) arr\<rparr>)"

text \<open>
  Modelled from the spec: the registers below the valid range take one word each from
  the words pulled, in order.
\<close>

fun refill :: "int list \<Rightarrow> int list \<Rightarrow> int list" where
  "refill [] ws = []"
| "refill (h # hs) ws =
     (if h < rans_l
      then (case ws of [] \<Rightarrow> h # refill hs [] | w # ws' \<Rightarrow> (h * 2 ^ 32 + w) # refill hs ws')
      else h # refill hs ws)"

text \<open>Modelled from the spec: \<^verbatim>\<open>vrans.push\<close> at arrays.\<close>

definition rans_vec_push ::
  "vec_message \<Rightarrow> int ndarray \<Rightarrow> int ndarray \<Rightarrow> nat \<Rightarrow> error + vec_message" where
  "rans_vec_push x starts freqs precision =
     (if \<not> list_all (\<lambda>s. 0 \<le> s) (flat starts) \<or> \<not> list_all (\<lambda>f. 0 < f) (flat freqs)
      then Inl ValueError
      else
        ebind (np_binop Pair (heads x) freqs) (\<lambda>hf.
        let full = (\<lambda>(h, f). h \<ge> (rans_l div 2 ^ precision) * 2 ^ 32 * f);
            emitted = map (\<lambda>(h, f). h mod 2 ^ 32) (filter full (flat hf));
            hf = np_map (\<lambda>(h, f). if full (h, f) then (h div 2 ^ 32, f) else (h, f)) hf
        in
        ebind (np_binop (\<lambda>(h, f) s. (h div f) * 2 ^ precision + h mod f + s) hf starts)
          (\<lambda>head.
        Inr \<lparr>heads = head, words = emitted @ words x\<rparr>)))"

text \<open>Modelled from the spec: \<^verbatim>\<open>vrans.pop\<close> at arrays.\<close>

definition rans_vec_pop ::
  "vec_message \<Rightarrow> nat \<Rightarrow> int ndarray \<times> (int ndarray \<Rightarrow> int ndarray \<Rightarrow> error + vec_message)" where
  "rans_vec_pop x precision =
     (let cfs = np_map (\<lambda>h. h mod 2 ^ precision) (heads x) in
      (cfs,
       \<lambda>starts freqs.
         if \<not> list_all (\<lambda>s. 0 \<le> s) (flat starts) \<or> \<not> list_all (\<lambda>f. 0 < f) (flat freqs)
         then Inl ValueError
         else
           ebind (np_binop (*) freqs (np_map (\<lambda>h. h div 2 ^ precision) (heads x))) (\<lambda>a.
           ebind (np_binop (+) a cfs) (\<lambda>b.
           ebind (np_binop (-) b starts) (\<lambda>head.
           let n = length (filter (\<lambda>h. h < rans_l) (flat head)) in
           if length (words x) < n then Inl IndexError
           else Inr \<lparr>heads = \<lparr>shape = shape head,
                                flat = refill (flat head) (take n (words x))\<rparr>,
                      words = drop n (words x)\<rparr>)))))"

text \<open>Modelled from the spec: the module \<^verbatim>\<open>vrans\<close> as the vectorized coder uses it.\<close>

definition vec_rans :: "vec_message vec_vrans" where
  "vec_rans = \<lparr>vrans_unflatten = rans_unflatten, vrans_vec_push = rans_vec_push,
               vrans_vec_pop = rans_vec_pop\<rparr>"

text \<open>
  A value for the parameter \<^verbatim>\<open>compression_utils\<close> in calls with more than one lane,
  which never reach it: both functions raise.
\<close>

definition no_patches :: "unit compression_utils" where
  "no_patches = \<lparr>decompose = (\<lambda>indices n_channels. Inl ValueError),
                 reconstitute = (\<lambda>stacked original_shape unfolded_shape. Inl ValueError)\<rparr>"

section \<open>NumPy's binary search on a sorted array\<close>

lemma binsearch_right_bounds:
  "lo \<le> hi \<Longrightarrow> lo \<le> binsearch_right a key lo hi \<and> binsearch_right a key lo hi \<le> hi"
proof (induction a key lo hi rule: binsearch_right.induct)
  case (1 a key lo hi)
  show ?case
  proof (cases "lo < hi")
    case False
    with "1.prems" show ?thesis by (simp add: binsearch_right.simps)
  next
    case True
    define mid where "mid = lo + (hi - lo) div 2"
    have m: "lo \<le> mid" "mid < hi" using True by (auto simp: mid_def)
    show ?thesis
    proof (cases "key < a ! mid")
      case True
      have "lo \<le> binsearch_right a key lo mid \<and> binsearch_right a key lo mid \<le> mid"
        using "1.IH"(1)[OF \<open>lo < hi\<close> mid_def True] m by simp
      moreover have "binsearch_right a key lo hi = binsearch_right a key lo mid"
        using \<open>lo < hi\<close> True by (subst binsearch_right.simps) (simp add: mid_def Let_def)
      ultimately show ?thesis using m by simp
    next
      case False
      have "mid + 1 \<le> binsearch_right a key (mid + 1) hi \<and> binsearch_right a key (mid + 1) hi \<le> hi"
        using "1.IH"(2)[OF \<open>lo < hi\<close> mid_def False] m by simp
      moreover have "binsearch_right a key lo hi = binsearch_right a key (mid + 1) hi"
        using \<open>lo < hi\<close> False by (subst binsearch_right.simps) (simp add: mid_def Let_def)
      ultimately show ?thesis using m by simp
    qed
  qed
qed

lemma binsearch_right_sorted:
  assumes "sorted a" and "lo \<le> hi" and "hi \<le> length a"
    and "\<forall>j<lo. a ! j \<le> key" and "\<forall>j. hi \<le> j \<and> j < length a \<longrightarrow> key < a ! j"
  shows "(\<forall>j<binsearch_right a key lo hi. a ! j \<le> key) \<and>
         (\<forall>j. binsearch_right a key lo hi \<le> j \<and> j < length a \<longrightarrow> key < a ! j)"
  using assms
proof (induction a key lo hi rule: binsearch_right.induct)
  case (1 a key lo hi)
  show ?case
  proof (cases "lo < hi")
    case False
    then have "binsearch_right a key lo hi = lo" by (simp add: binsearch_right.simps)
    moreover have "lo = hi" using False "1.prems" by simp
    ultimately show ?thesis using "1.prems" by simp
  next
    case True
    define mid where "mid = lo + (hi - lo) div 2"
    have m: "lo \<le> mid" "mid < hi" using True by (auto simp: mid_def)
    show ?thesis
    proof (cases "key < a ! mid")
      case k: True
      have up: "\<forall>j. mid \<le> j \<and> j < length a \<longrightarrow> key < a ! j"
      proof (intro allI impI)
        fix j assume "mid \<le> j \<and> j < length a"
        then have "a ! mid \<le> a ! j" using \<open>sorted a\<close> by (simp add: sorted_iff_nth_mono)
        with k show "key < a ! j" by simp
      qed
      have eq: "binsearch_right a key lo hi = binsearch_right a key lo mid"
        using True k by (subst binsearch_right.simps) (simp add: mid_def Let_def)
      show ?thesis unfolding eq
        using "1.IH"(1)[OF True mid_def k "1.prems"(1) m(1) _ "1.prems"(4) up] m "1.prems"(3)
        by simp
    next
      case k: False
      have low: "\<forall>j<mid + 1. a ! j \<le> key"
      proof (intro allI impI)
        fix j assume "j < mid + 1"
        then have "a ! j \<le> a ! mid" using \<open>sorted a\<close> m "1.prems"(3)
          by (simp add: sorted_iff_nth_mono)
        with k show "a ! j \<le> key" by simp
      qed
      have eq: "binsearch_right a key lo hi = binsearch_right a key (mid + 1) hi"
        using True k by (subst binsearch_right.simps) (simp add: mid_def Let_def)
      show ?thesis unfolding eq
        using "1.IH"(2)[OF True mid_def k "1.prems"(1) _ "1.prems"(3) low "1.prems"(5)] m
        by simp
    qed
  qed
qed

lemma searchsorted_right_sorted:
  assumes "sorted a"
  shows "searchsorted_right a key \<le> length a \<and>
         (\<forall>j<searchsorted_right a key. a ! j \<le> key) \<and>
         (\<forall>j. searchsorted_right a key \<le> j \<and> j < length a \<longrightarrow> key < a ! j)"
  using binsearch_right_sorted[OF assms, of 0 "length a" key]
    binsearch_right_bounds[of 0 "length a" a key]
  by (simp add: searchsorted_right_def)

lemma searchsorted_right_interval:
  assumes "sorted a" and "Suc v < length a" and "a ! v \<le> key" and "key < a ! Suc v"
  shows "searchsorted_right a key = Suc v"
proof -
  let ?r = "searchsorted_right a key"
  note s = searchsorted_right_sorted[OF assms(1), of key]
  have "\<not> ?r \<le> v"
  proof
    assume "?r \<le> v"
    then have "key < a ! v" using s assms(2) by simp
    with assms(3) show False by simp
  qed
  moreover have "\<not> Suc v < ?r"
  proof
    assume "Suc v < ?r"
    then have "a ! Suc v \<le> key" using s by simp
    with assms(4) show False by simp
  qed
  ultimately show ?thesis by simp
qed

section \<open>The stack coder meets its contract\<close>

lemma fold_interval:
  fixes q t P :: int
  assumes "0 \<le> t" "t < P"
  shows "(q * P + t) mod P = t" "(q * P + t) div P = q"
  using assms by (simp_all add: mod_pos_pos_trivial div_pos_pos_trivial)

lemma int_div_less:
  fixes a b c :: int
  assumes "0 < b" "a < c * b"
  shows "a div b < c"
proof (rule ccontr)
  assume "\<not> a div b < c"
  then have "c * b \<le> a div b * b" using assms(1) by (intro mult_right_mono) simp_all
  moreover have "a div b * b + a mod b = a" by simp
  moreover have "0 \<le> a mod b" using assms(1) by simp
  ultimately show False using assms(2) by linarith
qed

lemma int_le_div:
  fixes a b c :: int
  assumes "0 < b" "c * b \<le> a"
  shows "c \<le> a div b"
proof -
  have "c * b div b \<le> a div b" using assms by (intro zdiv_mono1)
  then show ?thesis using assms(1) by simp
qed

lemma rans_scale:
  assumes "precision \<le> 31"
  shows "rans_l div 2 ^ precision * 2 ^ precision = (2 :: int) ^ 31"
proof -
  have "(2 :: int) ^ 31 div 2 ^ precision = 2 ^ (31 - precision)"
    using assms by (simp add: power_diff)
  then have "rans_l div 2 ^ precision * 2 ^ precision = (2 :: int) ^ (31 - precision) * 2 ^ precision"
    by (simp add: rans_l_def)
  also have "\<dots> = 2 ^ (31 - precision + precision)" by (simp only: power_add)
  also have "\<dots> = 2 ^ 31" using assms by simp
  finally show ?thesis .
qed

lemma rans_fold_bounds:
  fixes h f s P :: int
  assumes "0 \<le> h" "0 \<le> s" "0 < f" "s + f \<le> P"
  shows "h \<le> h div f * P + h mod f + s" "h div f * P + h mod f + s < (h div f + 1) * P"
    "0 \<le> h mod f + s" "h mod f + s < P"
proof -
  have r: "0 \<le> h mod f" "h mod f < f" using assms by simp_all
  have q: "0 \<le> h div f" using assms by (simp add: pos_imp_zdiv_nonneg_iff)
  have "h = h div f * f + h mod f" by simp
  moreover have "h div f * f \<le> h div f * P" using q assms by (intro mult_left_mono) simp_all
  ultimately show "h \<le> h div f * P + h mod f + s" using assms by linarith
  show "0 \<le> h mod f + s" "h mod f + s < P" using r assms by linarith+
  then show "h div f * P + h mod f + s < (h div f + 1) * P" by (simp add: algebra_simps)
qed

lemma rans_unfold:
  fixes h f s P :: int
  assumes "0 \<le> h" "0 \<le> s" "0 < f" "s + f \<le> P"
  shows "f * ((h div f * P + h mod f + s) div P) + (h div f * P + h mod f + s) mod P - s = h"
    "(h div f * P + h mod f + s) mod P = h mod f + s"
proof -
  note b = rans_fold_bounds[OF assms]
  have e: "h div f * P + h mod f + s = h div f * P + (h mod f + s)" by simp
  show m: "(h div f * P + h mod f + s) mod P = h mod f + s"
    unfolding e using fold_interval(1)[OF b(3,4)] .
  have d: "(h div f * P + h mod f + s) div P = h div f"
    unfolding e using fold_interval(2)[OF b(3,4)] .
  show "f * ((h div f * P + h mod f + s) div P) + (h div f * P + h mod f + s) mod P - s = h"
    unfolding m d by simp
qed

lemma rans_push_pop:
  assumes p: "precision \<le> 31" and inv: "rans_inv m"
    and s: "0 \<le> start" and f: "0 < freq" and sf: "start + freq \<le> 2 ^ precision"
  shows "\<exists>m'. rans_push m start freq precision = Inr m' \<and> rans_inv m' \<and>
              start \<le> fst (rans_pop m' precision) \<and>
              fst (rans_pop m' precision) < start + freq \<and>
              snd (rans_pop m' precision) start freq = Inr m"
proof -
  define P :: int where "P = 2 ^ precision"
  define Q :: int where "Q = rans_l div 2 ^ precision"
  have QP: "Q * P = 2 ^ 31" unfolding Q_def P_def by (rule rans_scale[OF p])
  have Ppos: "0 < P" by (simp add: P_def)
  have Qpos: "0 \<le> Q" by (simp add: Q_def rans_l_def pos_imp_zdiv_nonneg_iff)
  have sfP: "start + freq \<le> P" using sf by (simp add: P_def)
  have hb: "2 ^ 31 \<le> head m" "head m < 2 ^ 63" and tl: "list_all (\<lambda>w. 0 \<le> w \<and> w < 2 ^ 32) (tail m)"
    using inv by (simp_all add: rans_inv_def rans_l_def)
  have big: "(2 :: int) ^ 63 = 2 ^ 31 * 2 ^ 32" "(2 :: int) ^ 62 = 2 ^ 31 * 2 ^ 31" by simp_all
  show ?thesis
  proof (cases "head m \<ge> Q * 2 ^ 32 * freq")
    case False
    define h' where "h' = head m div freq * P + head m mod freq + start"
    have h0: "0 \<le> head m" using hb by simp
    note b = rans_fold_bounds[OF h0 s f sfP] and u = rans_unfold[OF h0 s f sfP]
    have push: "rans_push m start freq precision = Inr \<lparr>head = h', tail = tail m\<rparr>"
      using False s f sf by (simp add: rans_push_def Let_def Q_def P_def h'_def)
    have lo: "2 ^ 31 \<le> h'" using b(1) hb by (simp add: h'_def)
    have "head m div freq < Q * 2 ^ 32"
    proof -
      have "head m < Q * 2 ^ 32 * freq" using False by simp
      then show ?thesis using f by (intro int_div_less)
    qed
    then have "(head m div freq + 1) * P \<le> Q * 2 ^ 32 * P"
      using Ppos by (intro mult_right_mono) simp_all
    also have "\<dots> = 2 ^ 63" using QP by (simp add: big mult.commute mult.left_commute)
    finally have hi: "h' < 2 ^ 63" using b(2) by (simp add: h'_def)
    have cf: "h' mod P = head m mod freq + start" using u(2) by (simp add: h'_def)
    have rec: "freq * (h' div P) + h' mod P - start = head m" using u(1) by (simp add: h'_def)
    have r: "0 \<le> head m mod freq" "head m mod freq < freq" using f by simp_all
    have "snd (rans_pop \<lparr>head = h', tail = tail m\<rparr> precision) start freq = Inr m"
      using s f r hb rec cf
      by (simp add: rans_pop_def Let_def P_def[symmetric] rans_l_def)
    moreover have "rans_inv \<lparr>head = h', tail = tail m\<rparr>"
      using lo hi tl by (simp add: rans_inv_def rans_l_def)
    moreover have "start \<le> fst (rans_pop \<lparr>head = h', tail = tail m\<rparr> precision)"
      "fst (rans_pop \<lparr>head = h', tail = tail m\<rparr> precision) < start + freq"
      using cf r by (simp_all add: rans_pop_def Let_def P_def[symmetric])
    ultimately show ?thesis using push by simp
  next
    case True
    define h1 where "h1 = head m div 2 ^ 32"
    define w where "w = head m mod 2 ^ 32"
    define h' where "h' = h1 div freq * P + h1 mod freq + start"
    have h10: "0 \<le> h1" using hb by (simp add: h1_def pos_imp_zdiv_nonneg_iff)
    have h1hi: "h1 < 2 ^ 31" unfolding h1_def using hb(2) by (intro int_div_less) simp_all
    have wb: "0 \<le> w" "w < 2 ^ 32" by (simp_all add: w_def)
    have join: "h1 * 2 ^ 32 + w = head m" by (simp add: h1_def w_def)
    note b = rans_fold_bounds[OF h10 s f sfP] and u = rans_unfold[OF h10 s f sfP]
    have push: "rans_push m start freq precision = Inr \<lparr>head = h', tail = w # tail m\<rparr>"
      using True s f sf by (simp add: rans_push_def Let_def Q_def P_def h'_def h1_def w_def)
    have "Q * freq \<le> h1"
    proof -
      have "Q * freq * 2 ^ 32 \<le> head m" using True by (simp add: mult.commute mult.left_commute)
      then show ?thesis unfolding h1_def by (intro int_le_div) simp_all
    qed
    then have "Q \<le> h1 div freq" using f by (intro int_le_div)
    then have "Q * P \<le> h1 div freq * P" using Ppos by (intro mult_right_mono) simp_all
    moreover have "0 \<le> h1 mod freq + start" using b(3) .
    ultimately have lo: "2 ^ 31 \<le> h'" using QP by (simp add: h'_def)
    have "h1 div freq \<le> h1" using h10 by (cases "h1 = 0") (simp_all add: int_div_le_self)
    then have "h1 div freq + 1 \<le> 2 ^ 31" using h1hi by simp
    then have "(h1 div freq + 1) * P \<le> 2 ^ 31 * P" using Ppos by (intro mult_right_mono) simp_all
    moreover have "P \<le> 2 ^ 31"
    proof -
      have "(2 :: int) ^ precision \<le> 2 ^ 31" using p by (intro power_increasing) simp_all
      then show ?thesis by (simp add: P_def)
    qed
    then have "(2 :: int) ^ 31 * P \<le> 2 ^ 31 * 2 ^ 31" by (intro mult_left_mono) simp_all
    ultimately have hi: "h' < 2 ^ 63" using b(2) by (simp add: h'_def)
    have cf: "h' mod P = h1 mod freq + start" using u(2) by (simp add: h'_def)
    have rec: "freq * (h' div P) + h' mod P - start = h1" using u(1) by (simp add: h'_def)
    have r: "0 \<le> h1 mod freq" "h1 mod freq < freq" using f by simp_all
    have "snd (rans_pop \<lparr>head = h', tail = w # tail m\<rparr> precision) start freq = Inr m"
      using s f r h1hi rec cf join
      by (simp add: rans_pop_def Let_def P_def[symmetric] rans_l_def)
    moreover have "rans_inv \<lparr>head = h', tail = w # tail m\<rparr>"
      using lo hi tl wb by (simp add: rans_inv_def rans_l_def)
    moreover have "start \<le> fst (rans_pop \<lparr>head = h', tail = w # tail m\<rparr> precision)"
      "fst (rans_pop \<lparr>head = h', tail = w # tail m\<rparr> precision) < start + freq"
      using cf r by (simp_all add: rans_pop_def Let_def P_def[symmetric])
    ultimately show ?thesis using push by simp
  qed
qed

lemma rans_flatten_unflatten:
  assumes "rans_inv m"
  shows "rans_unflatten_scalar (rans_flatten m) = Inr m"
  by (simp add: rans_unflatten_scalar_def rans_flatten_def)

lemma rans_contract:
  assumes "precision \<le> 31"
  shows "vrans_contract rans_inv rans precision"
proof -
  have "rans_inv (vrans_empty_message rans [])"
    by (simp add: rans_def rans_empty_message_def rans_inv_def rans_l_def)
  moreover have "\<exists>m'. vrans_push rans m start freq precision = Inr m' \<and> rans_inv m' \<and>
              start \<le> fst (vrans_pop rans m' precision) \<and>
              fst (vrans_pop rans m' precision) < start + freq \<and>
              snd (vrans_pop rans m' precision) start freq = Inr m"
    if "rans_inv m \<and> 0 \<le> start \<and> 0 < freq \<and> start + freq \<le> 2 ^ precision" for m start freq
    using rans_push_pop[OF assms, of m start freq] that by (simp add: rans_def)
  moreover have "vrans_unflatten_scalar rans (vrans_flatten rans m) = Inr m" if "rans_inv m" for m
    using rans_flatten_unflatten[OF that] by (simp add: rans_def)
  ultimately show ?thesis unfolding vrans_contract_def by blast
qed

section \<open>One position through the scalar coder\<close>

lemma ebind_Inr [simp]: "ebind (Inr x) f = f x"
  by (simp add: ebind_def)

lemma ebind_Inl [simp]: "ebind (Inl e) f = Inl e"
  by (simp add: ebind_def)

lemma py_assert_True [simp]: "b \<Longrightarrow> py_assert b = Inr ()"
  by (simp add: py_assert_def)

lemma py_assert_False [simp]: "\<not> b \<Longrightarrow> py_assert b = Inl AssertionError"
  by (simp add: py_assert_def)

lemma getitem_nonneg: "0 \<le> i \<Longrightarrow> i < int (length xs) \<Longrightarrow> getitem xs i = Inr (xs ! nat i)"
  by (simp add: getitem_def)

lemma getitem_nat: "i < length xs \<Longrightarrow> getitem xs (int i) = Inr (xs ! i)"
  by (simp add: getitem_def)

lemma getitem_last: "xs \<noteq> [] \<Longrightarrow> getitem xs (- 1) = Inr (last xs)"
  by (cases xs rule: rev_cases) (simp_all add: getitem_def)

lemma setitem_nat: "i < length xs \<Longrightarrow> setitem xs (int i) v = Inr (xs[i := v])"
  by (simp add: setitem_def)

lemma indexed_cdf_to_dec_statfun_eq:
  assumes "1 \<le> n" "n \<le> int (length cdf_i)"
  shows "indexed_cdf_to_dec_statfun cdf_i n =
     (if cdf_i ! (nat n - 1) = OVERFLOW_CODE \<or> cdf_i ! (nat n - 1) = 2 ^ OVERFLOW_WIDTH
      then Inr (\<lambda>cum_freq. int (searchsorted_right (take (nat n) cdf_i) cum_freq) - 1)
      else Inl AssertionError)"
proof -
  have sl: "slice_to cdf_i n = take (nat n) cdf_i" using assms by (simp add: slice_to_def)
  have ne: "take (nat n) cdf_i \<noteq> []" using assms by auto
  have "min (length cdf_i) (nat n) = nat n" using assms by simp
  then have "last (take (nat n) cdf_i) = take (nat n) cdf_i ! (nat n - 1)"
    using ne by (simp add: last_conv_nth)
  also have "\<dots> = cdf_i ! (nat n - 1)" using assms by simp
  finally have la: "last (take (nat n) cdf_i) = cdf_i ! (nat n - 1)" .
  show ?thesis
    by (simp add: indexed_cdf_to_dec_statfun_def sl Let_def getitem_last[OF ne] la)
qed

lemma indexed_cdf_to_enc_statfun_eq:
  assumes "0 \<le> v" "v + 1 < int (length cdf_i)"
  shows "indexed_cdf_to_enc_statfun cdf_i v =
     Inr (cdf_i ! nat v, cdf_i ! (nat v + 1) - cdf_i ! nat v)"
proof -
  have "nat (v + 1) = nat v + 1" using assms by simp
  then show ?thesis using assms
    by (simp add: indexed_cdf_to_enc_statfun_def getitem_nonneg)
qed

lemma step_roundtrip:
  assumes c: "vrans_contract valid V precision" and v: "valid m"
    and i: "i < length symbols" "i < length indices"
    and ok: "position_ok cdf cdf_length cdf_offset precision (symbols ! i) (indices ! i)"
  shows "\<exists>m'. ans_index_encoder_step V symbols indices cdf cdf_length cdf_offset precision m i = Inr m' \<and>
           valid m' \<and>
           (\<forall>decoded. i < length decoded \<longrightarrow>
              ans_index_decoder_step V indices cdf cdf_length cdf_offset precision (m', decoded) i =
                Inr (m, decoded[i := symbols ! i]))"
proof -
  define idx where "idx = indices ! i"
  define row where "row = cdf ! nat idx"
  define n where "n = cdf_length ! nat idx"
  define off where "off = cdf_offset ! nat idx"
  define x where "x = symbols ! i - off"
  define start where "start = row ! nat x"
  define freq where "freq = row ! (nat x + 1) - row ! nat x"
  define a where "a = take (nat n) row"
  define f where "f = (\<lambda>cum_freq. int (searchsorted_right a cum_freq) - 1)"
  have idx: "0 \<le> idx" "idx < int (length cdf)" "idx < int (length cdf_length)"
    "idx < int (length cdf_offset)"
    and rowok: "cdf_row_ok row n precision"
    and x: "0 \<le> x" "x < n - 2" and fpos: "0 < freq"
    using ok by (simp_all add: position_ok_def idx_def row_def n_def off_def x_def freq_def)
  have n: "2 \<le> n" "n \<le> int (length row)" and sorted: "sorted a" and r0: "0 \<le> row ! 0"
    and last_entry: "row ! (nat n - 1) = OVERFLOW_CODE \<or> row ! (nat n - 1) = 2 ^ OVERFLOW_WIDTH"
    and top: "row ! (nat n - 1) \<le> 2 ^ precision"
    using rowok by (simp_all add: cdf_row_ok_def a_def)
  have la: "length a = nat n" using n by (simp add: a_def)
  have an: "a ! k = row ! k" if "k < nat n" for k using that by (simp add: a_def)
  have g: "getitem indices (int i) = Inr idx" "getitem cdf idx = Inr row"
    "getitem cdf_length idx = Inr n" "getitem symbols (int i) = Inr (symbols ! i)"
    "getitem cdf_offset idx = Inr off"
    using i idx by (simp_all add: getitem_nat getitem_nonneg idx_def row_def n_def off_def)
  have cl: "clamp_to_escape x (n - 2) = (x, 0)" using x by (simp add: clamp_to_escape_def)
  have enc: "indexed_cdf_to_enc_statfun row x = Inr (start, freq)"
    using x n by (simp add: indexed_cdf_to_enc_statfun_eq start_def freq_def)
  have dec: "indexed_cdf_to_dec_statfun row n = Inr f"
    using n last_entry by (simp add: indexed_cdf_to_dec_statfun_eq f_def a_def)
  have s0: "0 \<le> start"
  proof -
    have "a ! 0 \<le> a ! nat x" using sorted x la by (intro sorted_nth_mono) simp_all
    then show ?thesis using r0 x n by (simp add: an start_def)
  qed
  have sf: "start + freq \<le> 2 ^ precision"
  proof -
    have "a ! (nat x + 1) \<le> a ! (nat n - 1)" using sorted x la by (intro sorted_nth_mono) simp_all
    then have "row ! (nat x + 1) \<le> row ! (nat n - 1)" using x n by (simp add: an)
    then show ?thesis using top by (simp add: start_def freq_def)
  qed
  from c v s0 fpos sf obtain m' where push: "vrans_push V m start freq precision = Inr m'"
    and v': "valid m'" and cf1: "start \<le> fst (vrans_pop V m' precision)"
    and cf2: "fst (vrans_pop V m' precision) < start + freq"
    and fin: "snd (vrans_pop V m' precision) start freq = Inr m"
    unfolding vrans_contract_def by blast
  define cf where "cf = fst (vrans_pop V m' precision)"
  define k where "k = snd (vrans_pop V m' precision)"
  have pop_eq: "vrans_pop V m' precision = (cf, k)" by (simp add: cf_def k_def)
  have cf: "start \<le> cf" "cf < start + freq" "k start freq = Inr m"
    using cf1 cf2 fin by (simp_all add: cf_def k_def)
  have "searchsorted_right a cf = Suc (nat x)"
  proof (rule searchsorted_right_interval[OF sorted])
    show "Suc (nat x) < length a" using x la by simp
    show "a ! nat x \<le> cf" using cf(1) x by (simp add: an start_def)
    show "cf < a ! Suc (nat x)" using cf(2) x by (simp add: an start_def freq_def)
  qed
  then have sym: "f cf = x" using x by (simp add: f_def)
  have e: "ans_index_encoder_step V symbols indices cdf cdf_length cdf_offset precision m i = Inr m'"
    using idx n x g cl enc dec push
    by (simp add: ans_index_encoder_step_def Let_def base_codec_def x_def[symmetric])
  have d: "ans_index_decoder_step V indices cdf cdf_length cdf_offset precision (m', decoded) i =
      Inr (m, decoded[i := symbols ! i])" if "i < length decoded" for decoded
    using idx n x g enc dec sym cf that
    by (simp add: ans_index_decoder_step_def Let_def base_codec_def pop_eq setitem_nat x_def)
  show ?thesis using e v' d by blast
qed

section \<open>The loops of the scalar coder\<close>

lemma ebind_assoc: "ebind (ebind a f) g = ebind a (\<lambda>x. ebind (f x) g)"
  by (cases a) simp_all

lemma ans_index_encoder_loop_append:
  "ans_index_encoder_loop V symbols indices cdf cdf_length cdf_offset precision (ps @ qs) m =
     ebind (ans_index_encoder_loop V symbols indices cdf cdf_length cdf_offset precision ps m)
       (ans_index_encoder_loop V symbols indices cdf cdf_length cdf_offset precision qs)"
proof (induction ps arbitrary: m)
  case Nil
  show ?case by simp
next
  case (Cons p ps)
  show ?case
    by (cases "ans_index_encoder_step V symbols indices cdf cdf_length cdf_offset precision m p")
      (simp_all add: Cons.IH)
qed

lemma loops_roundtrip:
  assumes c: "vrans_contract valid V precision"
    and ok: "\<forall>i\<in>set ps. i < length symbols \<and> i < length indices \<and>
               position_ok cdf cdf_length cdf_offset precision (symbols ! i) (indices ! i)"
    and v: "valid m"
  shows "\<exists>m'. ans_index_encoder_loop V symbols indices cdf cdf_length cdf_offset precision (rev ps) m = Inr m' \<and>
           valid m' \<and>
           (\<forall>decoded. (\<forall>i\<in>set ps. i < length decoded) \<longrightarrow>
              ans_index_decoder_loop V indices cdf cdf_length cdf_offset precision ps (m', decoded) =
                Inr (m, fold (\<lambda>i d. d[i := symbols ! i]) ps decoded))"
  using ok v
proof (induction ps arbitrary: m)
  case Nil
  then show ?case by simp
next
  case (Cons p ps)
  from Cons.IH[of m] Cons.prems obtain m1 where
    e1: "ans_index_encoder_loop V symbols indices cdf cdf_length cdf_offset precision (rev ps) m = Inr m1"
    and v1: "valid m1"
    and d1: "\<And>decoded. (\<forall>i\<in>set ps. i < length decoded) \<Longrightarrow>
              ans_index_decoder_loop V indices cdf cdf_length cdf_offset precision ps (m1, decoded) =
                Inr (m, fold (\<lambda>i d. d[i := symbols ! i]) ps decoded)"
    by auto
  have p: "p < length symbols" "p < length indices"
    "position_ok cdf cdf_length cdf_offset precision (symbols ! p) (indices ! p)"
    using Cons.prems by simp_all
  from step_roundtrip[OF c v1 p] obtain m2 where
    e2: "ans_index_encoder_step V symbols indices cdf cdf_length cdf_offset precision m1 p = Inr m2"
    and v2: "valid m2"
    and d2: "\<And>decoded. p < length decoded \<Longrightarrow>
              ans_index_decoder_step V indices cdf cdf_length cdf_offset precision (m2, decoded) p =
                Inr (m1, decoded[p := symbols ! p])"
    by blast
  have "ans_index_encoder_loop V symbols indices cdf cdf_length cdf_offset precision (rev (p # ps)) m = Inr m2"
    by (simp add: ans_index_encoder_loop_append e1 e2)
  moreover have "ans_index_decoder_loop V indices cdf cdf_length cdf_offset precision (p # ps) (m2, decoded) =
      Inr (m, fold (\<lambda>i d. d[i := symbols ! i]) (p # ps) decoded)"
    if "\<forall>i\<in>set (p # ps). i < length decoded" for decoded
    using that by (simp add: d2 d1)
  ultimately show ?case using v2 by blast
qed

lemma fold_update_upt:
  "k \<le> length d \<Longrightarrow> fold (\<lambda>i d. d[i := f i]) [0..<k] d = map f [0..<k] @ drop k d"
proof (induction k)
  case 0
  show ?case by simp
next
  case (Suc k)
  then have k: "k < length d" by simp
  have e: "drop k d = d ! k # drop (Suc k) d" using k by (simp add: Cons_nth_drop_Suc)
  have "fold (\<lambda>i d. d[i := f i]) [0..<Suc k] d = (map f [0..<k] @ drop k d)[k := f k]"
    using Suc by simp
  also have "\<dots> = map f [0..<k] @ (drop k d)[0 := f k]"
    by (simp add: list_update_append)
  also have "\<dots> = map f [0..<k] @ f k # drop (Suc k) d"
    by (subst e) simp
  finally show ?case by simp
qed

lemma astype_int32_id: "- (2 ^ 31) \<le> x \<Longrightarrow> x < 2 ^ 31 \<Longrightarrow> astype_int32 x = x"
  by (simp add: astype_int32_def)

lemma overflow_dec_statfun_default:
  "\<exists>g. indexed_cdf_to_dec_statfun (map int [0..<2 ^ OVERFLOW_WIDTH + 1])
          (int (length (map int [0..<2 ^ OVERFLOW_WIDTH + 1]))) = Inr g"
  by (simp add: indexed_cdf_to_dec_statfun_eq OVERFLOW_WIDTH_def)

lemma roundtrip_general:
  assumes c: "vrans_contract valid V precision"
    and wf: "length (flat indices) = prod_list (shape indices)"
    and ok: "list_all2 (position_ok cdf cdf_length cdf_offset precision) (flat symbols) (flat indices)"
  shows "\<exists>encoded.
      ans_index_encoder V symbols indices cdf cdf_length cdf_offset precision OVERFLOW_WIDTH =
        Inr (encoded, drop 1 (shape symbols)) \<and>
      ans_index_decoder V encoded indices cdf cdf_length cdf_offset precision coding_shape OVERFLOW_WIDTH =
        Inr \<lparr>shape = [length (flat symbols)], flat = flat symbols, dtype = Float64\<rparr>"
proof -
  define ss where "ss = flat symbols"
  define ix where "ix = flat indices"
  have len: "length ss = length ix" using ok by (simp add: ss_def ix_def list_all2_lengthD)
  have pos: "position_ok cdf cdf_length cdf_offset precision (ss ! i) (ix ! i)" if "i < length ix" for i
    using ok that len by (simp add: ss_def ix_def list_all2_nthD2)
  have "map astype_int32 ss = map id ss"
  proof (rule map_cong[OF refl])
    fix x assume "x \<in> set ss"
    then obtain i where "i < length ss" "ss ! i = x" by (auto simp: in_set_conv_nth)
    then show "astype_int32 x = id x" using pos[of i] len
      by (simp add: position_ok_def astype_int32_id)
  qed
  then have cs: "map astype_int32 ss = ss" by simp
  have "map astype_int32 ix = map id ix"
  proof (rule map_cong[OF refl])
    fix x assume "x \<in> set ix"
    then obtain i where "i < length ix" "ix ! i = x" by (auto simp: in_set_conv_nth)
    then show "astype_int32 x = id x" using pos[of i]
      by (simp add: position_ok_def astype_int32_id)
  qed
  then have ci: "map astype_int32 ix = ix" by simp
  have all: "\<forall>i\<in>set [0..<length ix]. i < length ss \<and> i < length ix \<and>
               position_ok cdf cdf_length cdf_offset precision (ss ! i) (ix ! i)"
    using pos len by simp
  have v0: "valid (vrans_empty_message V [])" using c by (simp add: vrans_contract_def)
  from loops_roundtrip[OF c all v0] obtain m' where
    e: "ans_index_encoder_loop V ss ix cdf cdf_length cdf_offset precision (rev [0..<length ix])
          (vrans_empty_message V []) = Inr m'"
    and v': "valid m'"
    and d: "\<And>decoded. (\<forall>i\<in>set [0..<length ix]. i < length decoded) \<Longrightarrow>
              ans_index_decoder_loop V ix cdf cdf_length cdf_offset precision [0..<length ix] (m', decoded) =
                Inr (vrans_empty_message V [], fold (\<lambda>i d. d[i := ss ! i]) [0..<length ix] decoded)"
    by blast
  obtain g where g: "indexed_cdf_to_dec_statfun (map int [0..<2 ^ OVERFLOW_WIDTH + 1])
          (int (length (map int [0..<2 ^ OVERFLOW_WIDTH + 1]))) = Inr g"
    using overflow_dec_statfun_default by blast
  have enc: "ans_index_encoder V symbols indices cdf cdf_length cdf_offset precision OVERFLOW_WIDTH =
      Inr (vrans_flatten V m', drop 1 (shape symbols))"
    using e g
    by (simp add: ans_index_encoder_def Let_def ss_def[symmetric] ix_def[symmetric] cs ci
        split: prod.splits)
  have un: "vrans_unflatten_scalar V (vrans_flatten V m') = Inr m'"
    using c v' by (simp add: vrans_contract_def)
  define d0 where "d0 = replicate (prod_list (shape indices)) (0 :: int)"
  have l0: "length d0 = length ix" using wf by (simp add: d0_def ix_def)
  have "fold (\<lambda>i d. d[i := ss ! i]) [0..<length ix] d0 = map ((!) ss) [0..<length ss]"
    using fold_update_upt[of "length ix" d0 "(!) ss"] l0 len by simp
  then have fin: "fold (\<lambda>i d. d[i := ss ! i]) [0..<length ix] d0 = ss" by (simp add: map_nth)
  have dl: "ans_index_decoder_loop V ix cdf cdf_length cdf_offset precision [0..<length ix] (m', d0) =
      Inr (vrans_empty_message V [], ss)"
    using d[of d0] l0 fin by simp
  have dec: "ans_index_decoder V (vrans_flatten V m') indices cdf cdf_length cdf_offset precision
      coding_shape OVERFLOW_WIDTH =
      Inr \<lparr>shape = [length ss], flat = ss, dtype = Float64\<rparr>"
    using un g dl
    by (simp add: ans_index_decoder_def Let_def ix_def[symmetric] d0_def[symmetric] ci
        split: prod.splits)
  show ?thesis using enc dec by (auto simp: ss_def)
qed

section \<open>What a completed call says about its arguments\<close>

lemma ebind_eq_Inr: "ebind a f = Inr y \<longleftrightarrow> (\<exists>x. a = Inr x \<and> f x = Inr y)"
  by (cases a) simp_all

lemma py_assert_eq_Inr: "py_assert b = Inr u \<longleftrightarrow> b"
  by (simp add: py_assert_def)

lemma getitem_Inr_nonneg: "getitem xs i = Inr x \<Longrightarrow> 0 \<le> i \<Longrightarrow> i < int (length xs) \<and> x = xs ! nat i"
  by (auto simp: getitem_def split: if_splits)

lemma setitem_length: "setitem xs i v = Inr ys \<Longrightarrow> length ys = length xs"
  by (auto simp: setitem_def split: if_splits)

lemma decoder_step_facts:
  assumes "ans_index_decoder_step V indices cdf cdf_length cdf_offset precision (m, d) i = Inr (m', d')"
  shows "length d' = length d"
    and "\<exists>idx. getitem indices (int i) = Inr idx \<and> 0 \<le> idx \<and> idx < int (length cdf) \<and>
           2 \<le> cdf_length ! nat idx \<and> cdf_length ! nat idx \<le> int (length (cdf ! nat idx)) \<and>
           (cdf ! nat idx ! (nat (cdf_length ! nat idx) - 1) = OVERFLOW_CODE \<or>
            cdf ! nat idx ! (nat (cdf_length ! nat idx) - 1) = 2 ^ OVERFLOW_WIDTH)"
proof -
  from assms obtain idx row n f where
    g: "getitem indices (int i) = Inr idx" "getitem cdf idx = Inr row"
      "getitem cdf_length idx = Inr n"
    and a1: "0 \<le> idx" "idx < int (length cdf)"
    and a2: "2 \<le> n" "n < 1 + int (length row)"
    and dec: "indexed_cdf_to_dec_statfun row n = Inr f"
    and rest: "\<exists>b off. setitem d (int i) (b + off) = Inr d'"
    by (auto simp: ans_index_decoder_step_def ebind_eq_Inr py_assert_eq_Inr Let_def split_beta)
      blast
  from rest show "length d' = length d" by (auto dest: setitem_length)
  have row: "row = cdf ! nat idx" using getitem_Inr_nonneg[OF g(2)] a1 by simp
  have n: "n = cdf_length ! nat idx" using getitem_Inr_nonneg[OF g(3)] a1 by simp
  have nb: "1 \<le> n" "n \<le> int (length row)" using a2 by simp_all
  have "row ! (nat n - 1) = OVERFLOW_CODE \<or> row ! (nat n - 1) = 2 ^ OVERFLOW_WIDTH"
    using dec indexed_cdf_to_dec_statfun_eq[OF nb] by (simp split: if_splits)
  then show "\<exists>idx. getitem indices (int i) = Inr idx \<and> 0 \<le> idx \<and> idx < int (length cdf) \<and>
           2 \<le> cdf_length ! nat idx \<and> cdf_length ! nat idx \<le> int (length (cdf ! nat idx)) \<and>
           (cdf ! nat idx ! (nat (cdf_length ! nat idx) - 1) = OVERFLOW_CODE \<or>
            cdf ! nat idx ! (nat (cdf_length ! nat idx) - 1) = 2 ^ OVERFLOW_WIDTH)"
    using g(1) a1 a2 row n by auto
qed

lemma decoder_loop_facts:
  assumes "ans_index_decoder_loop V indices cdf cdf_length cdf_offset precision ps (m, d) = Inr (m', d')"
    and "\<forall>i\<in>set ps. i < length indices"
  shows "length d' = length d \<and>
    (\<forall>i\<in>set ps. 0 \<le> indices ! i \<and> indices ! i < int (length cdf) \<and>
       (row_total cdf cdf_length (indices ! i) = OVERFLOW_CODE \<or>
        row_total cdf cdf_length (indices ! i) = 2 ^ OVERFLOW_WIDTH))"
  using assms
proof (induction ps arbitrary: m d)
  case Nil
  then show ?case by simp
next
  case (Cons p ps)
  from Cons.prems(1) obtain m1 d1 where
    s: "ans_index_decoder_step V indices cdf cdf_length cdf_offset precision (m, d) p = Inr (m1, d1)"
    and l: "ans_index_decoder_loop V indices cdf cdf_length cdf_offset precision ps (m1, d1) = Inr (m', d')"
    by (auto simp: ebind_eq_Inr)
  note f = decoder_step_facts[OF s]
  have ih: "length d' = length d1 \<and>
    (\<forall>i\<in>set ps. 0 \<le> indices ! i \<and> indices ! i < int (length cdf) \<and>
       (row_total cdf cdf_length (indices ! i) = OVERFLOW_CODE \<or>
        row_total cdf cdf_length (indices ! i) = 2 ^ OVERFLOW_WIDTH))"
    using Cons.IH[OF l] Cons.prems(2) by simp
  have "p < length indices" using Cons.prems(2) by simp
  then have "getitem indices (int p) = Inr (indices ! p)" by (simp add: getitem_nat)
  with f(2) have "0 \<le> indices ! p \<and> indices ! p < int (length cdf) \<and>
       (row_total cdf cdf_length (indices ! p) = OVERFLOW_CODE \<or>
        row_total cdf cdf_length (indices ! p) = 2 ^ OVERFLOW_WIDTH)"
    by (auto simp: row_total_def)
  then show ?case using ih f(1) by simp
qed

lemma decoder_result:
  assumes "ans_index_decoder V encoded indices cdf cdf_length cdf_offset precision coding_shape w = Inr r"
  shows "dtype r = Float64 \<and> shape r = [prod_list (shape indices)] \<and>
         length (flat r) = prod_list (shape indices) \<and>
         (\<forall>i<length (flat indices).
             0 \<le> astype_int32 (flat indices ! i) \<and> astype_int32 (flat indices ! i) < int (length cdf) \<and>
             (row_total cdf cdf_length (astype_int32 (flat indices ! i)) = OVERFLOW_CODE \<or>
              row_total cdf cdf_length (astype_int32 (flat indices ! i)) = 2 ^ OVERFLOW_WIDTH))"
proof -
  define ix where "ix = map astype_int32 (flat indices)"
  define d0 where "d0 = replicate (prod_list (shape indices)) (0 :: int)"
  from assms obtain m m' d' where
    l: "ans_index_decoder_loop V ix cdf cdf_length cdf_offset precision [0..<length ix] (m, d0) = Inr (m', d')"
    and r: "r = \<lparr>shape = [length d'], flat = d', dtype = Float64\<rparr>"
    by (auto simp: ans_index_decoder_def ebind_eq_Inr Let_def ix_def d0_def split_beta)
  have "\<forall>i\<in>set [0..<length ix]. i < length ix" by simp
  from decoder_loop_facts[OF l this] show ?thesis
    by (simp add: r d0_def ix_def)
qed

lemma decoder_ignores_coding_shape:
  "ans_index_decoder V encoded indices cdf cdf_length cdf_offset precision coding_shape w =
   ans_index_decoder V encoded indices cdf cdf_length cdf_offset precision coding_shape' w"
  by (simp add: ans_index_decoder_def)

lemma encoder_coding_shape:
  assumes "ans_index_encoder V symbols indices cdf cdf_length cdf_offset precision w = Inr (encoded, cs)"
  shows "cs = drop 1 (shape symbols)"
  using assms
  by (auto simp: ans_index_encoder_def ebind_eq_Inr Let_def split_beta)

section \<open>The lookup finds the rightmost index\<close>

lemma slice_to_nonneg: "0 \<le> n \<Longrightarrow> slice_to xs n = take (nat n) xs"
  by (simp add: slice_to_def)

lemma search_rightmost:
  assumes n: "1 \<le> n" "n \<le> int (length row)" and s: "sorted (take (nat n) row)"
    and lo: "row ! 0 \<le> cum_freq"
  shows "rightmost_index row n cum_freq (int (searchsorted_right (take (nat n) row) cum_freq) - 1)"
proof -
  define a where "a = take (nat n) row"
  define r where "r = searchsorted_right a cum_freq"
  have la: "length a = nat n" using n by (simp add: a_def)
  have an: "a ! k = row ! k" if "k < nat n" for k using that by (simp add: a_def)
  note ss = searchsorted_right_sorted[OF s[folded a_def], of cum_freq, folded r_def]
  have r1: "1 \<le> r"
  proof (rule ccontr)
    assume "\<not> 1 \<le> r"
    then have "r \<le> 0 \<and> 0 < length a" using la n by simp
    then have "cum_freq < a ! 0" using ss by blast
    then show False using lo an[of 0] n by simp
  qed
  have rn: "r \<le> nat n" using ss la by simp
  have "a ! (r - 1) \<le> cum_freq" using ss r1 by simp
  then have v: "row ! nat (int r - 1) \<le> cum_freq" using an[of "r - 1"] r1 rn by (simp add: nat_diff_distrib')
  have m: "int j \<le> int r - 1" if "int j < n \<and> row ! j \<le> cum_freq" for j
  proof (rule ccontr)
    assume "\<not> int j \<le> int r - 1"
    then have "r \<le> j \<and> j < length a" using that la by (simp add: zless_nat_eq_int_zless)
    then have "cum_freq < a ! j" using ss by blast
    moreover have "j < nat n" using that by (simp add: zless_nat_eq_int_zless)
    ultimately show False using that an[of j] by simp
  qed
  show ?thesis
    unfolding rightmost_index_def a_def[symmetric] r_def[symmetric]
    using r1 rn v m n by auto
qed

lemma search_interval:
  assumes n: "1 \<le> n" "n \<le> int (length row)" and s: "sorted (take (nat n) row)"
    and i: "interval_index row n cum_freq i"
  shows "int (searchsorted_right (take (nat n) row) cum_freq) - 1 = i"
proof -
  have b: "0 \<le> i" "i + 1 < n" "row ! nat i \<le> cum_freq" "cum_freq < row ! (nat i + 1)"
    using i by (simp_all add: interval_index_def)
  have "searchsorted_right (take (nat n) row) cum_freq = Suc (nat i)"
  proof (rule searchsorted_right_interval[OF s])
    show "Suc (nat i) < length (take (nat n) row)" using b n by simp
    show "take (nat n) row ! nat i \<le> cum_freq" using b by simp
    show "cum_freq < take (nat n) row ! Suc (nat i)" using b by simp
  qed
  then show ?thesis using b by simp
qed

lemma rightmost_is_interval:
  assumes "rightmost_index row n cum_freq i" and "cum_freq < row ! (nat n - 1)"
  shows "interval_index row n cum_freq i"
proof -
  have b: "0 \<le> i" "i < n" "row ! nat i \<le> cum_freq"
    and m: "\<And>j. int j < n \<Longrightarrow> row ! j \<le> cum_freq \<Longrightarrow> int j \<le> i"
    using assms(1) by (auto simp: rightmost_index_def)
  have "i \<noteq> n - 1" using b assms(2) by (auto simp: nat_diff_distrib')
  then have i1: "i + 1 < n" using b by simp
  have "\<not> row ! (nat i + 1) \<le> cum_freq"
  proof
    assume "row ! (nat i + 1) \<le> cum_freq"
    then have "int (nat i + 1) \<le> i" using m[of "nat i + 1"] i1 b by simp
    then show False using b by simp
  qed
  then show ?thesis using b i1 by (simp add: interval_index_def)
qed

lemma reshape_rows_exact:
  assumes "0 < w" "length xs = p * w"
  shows "reshape_rows xs w = Inr (map (\<lambda>k. take w (drop (k * w) xs)) [0..<p])"
  using assms by (simp add: reshape_rows_def)

lemma vec_lookup_search:
  assumes sh: "shape cdf_i = cs @ [w]" and w: "0 < w"
    and lc: "length (flat cdf_i) = prod_list cs * w"
    and ll: "length (flat cdf_i_length) = prod_list cs"
    and sv: "shape value = cs" and lv: "length (flat value) = prod_list cs"
  shows "\<exists>g. vec_indexed_cdf_to_dec_statfun cdf_i cdf_i_length = Inr g \<and>
           g value = Inr \<lparr>shape = cs, flat = map (\<lambda>k. int (searchsorted_right
               (slice_to (take w (drop (k * w) (flat cdf_i))) (flat cdf_i_length ! k))
               (flat value ! k)) - 1) [0..<prod_list cs]\<rparr>"
proof -
  define P where "P = prod_list cs"
  define rows where "rows = map (\<lambda>k. take w (drop (k * w) (flat cdf_i))) [0..<P]"
  define ragged where "ragged = map (\<lambda>(c, l). slice_to c l) (zip rows (flat cdf_i_length))"
  define syms where "syms = map (\<lambda>(cb, v_i). int (searchsorted_right cb v_i) - 1)
                     (zip ragged (flat value))"
  have rr: "reshape_rows (flat cdf_i) w = Inr rows"
    using reshape_rows_exact[OF w lc] by (simp add: rows_def P_def)
  have l1: "length rows = P" by (simp add: rows_def)
  have l2: "length ragged = P" using l1 ll by (simp add: ragged_def P_def)
  have l3: "length syms = P" using l2 lv by (simp add: syms_def P_def)
  have "syms = map (\<lambda>k. int (searchsorted_right
               (slice_to (take w (drop (k * w) (flat cdf_i))) (flat cdf_i_length ! k))
               (flat value ! k)) - 1) [0..<P]"
  proof (rule nth_equalityI)
    show "length syms = length (map (\<lambda>k. int (searchsorted_right
               (slice_to (take w (drop (k * w) (flat cdf_i))) (flat cdf_i_length ! k))
               (flat value ! k)) - 1) [0..<P])" using l3 by simp
    fix k assume "k < length syms"
    then have k: "k < P" using l3 by simp
    then show "syms ! k = map (\<lambda>k. int (searchsorted_right
               (slice_to (take w (drop (k * w) (flat cdf_i))) (flat cdf_i_length ! k))
               (flat value ! k)) - 1) [0..<P] ! k"
      using l1 l2 ll lv
      by (simp add: syms_def ragged_def rows_def P_def)
  qed
  then have "map (\<lambda>(cb, v_i). int (searchsorted_right cb v_i) - 1)
      (zip (map (\<lambda>(c, l). slice_to c l) (zip rows (flat cdf_i_length))) (flat value)) =
    map (\<lambda>k. int (searchsorted_right
               (slice_to (take w (drop (k * w) (flat cdf_i))) (flat cdf_i_length ! k))
               (flat value ! k)) - 1) [0..<prod_list cs]"
    by (simp add: syms_def ragged_def P_def)
  then show ?thesis
    using sh rr sv l1 ll lv
    by (simp add: vec_indexed_cdf_to_dec_statfun_def Let_def P_def)
qed

lemma wellformed_row_passes_check:
  assumes ok: "cdf_row_ok row n p" and lo: "row ! 0 \<le> cf" and hi: "cf < row ! (nat n - 1)"
  shows "\<exists>dec start freq. indexed_cdf_to_dec_statfun row n = Inr dec \<and>
           indexed_cdf_to_enc_statfun row (dec cf) = Inr (start, freq) \<and>
           start \<le> cf \<and> cf < start + freq"
proof -
  define dec where "dec = (\<lambda>c. int (searchsorted_right (take (nat n) row) c) - 1)"
  have n: "1 \<le> n" "n \<le> int (length row)" and s: "sorted (take (nat n) row)"
    and t: "row ! (nat n - 1) = OVERFLOW_CODE \<or> row ! (nat n - 1) = 2 ^ OVERFLOW_WIDTH"
    using ok by (simp_all add: cdf_row_ok_def)
  have d: "indexed_cdf_to_dec_statfun row n = Inr dec"
    using t by (simp add: indexed_cdf_to_dec_statfun_eq[OF n] dec_def)
  have "rightmost_index row n cf (dec cf)"
    unfolding dec_def by (rule search_rightmost[OF n s lo])
  then have "interval_index row n cf (dec cf)"
    using hi by (rule rightmost_is_interval)
  then have b: "0 \<le> dec cf" "dec cf + 1 < n" "row ! nat (dec cf) \<le> cf"
    "cf < row ! (nat (dec cf) + 1)"
    by (simp_all add: interval_index_def)
  have "indexed_cdf_to_enc_statfun row (dec cf) =
      Inr (row ! nat (dec cf), row ! (nat (dec cf) + 1) - row ! nat (dec cf))"
    using b n by (intro indexed_cdf_to_enc_statfun_eq) simp_all
  then show ?thesis using d b by simp
qed

section \<open>The round trip of the scalar coder\<close>

text \<open>
  C1, as amended. Let the stack coder meet its contract at the given precision, let the
  index tensor hold one element per position of its shape, and let every position be
  covered: symbol and index are int32 values, the index selects a row whose valid
  entries are non-decreasing from a non-negative first entry and end in \<open>2 ^ 16\<close> or
  \<open>2 ^ 4\<close>, at most \<open>2 ^ precision\<close>, and the shifted value lies in
  \<open>[0, cdf_length - 2)\<close> in a bin of positive frequency. Then \<^verbatim>\<open>ans_index_encoder\<close>
  returns a stream, and \<^verbatim>\<open>ans_index_decoder\<close> on that stream with the same arguments
  returns the symbols, in their order, as a flat float64 array.
\<close>

theorem ans_index_roundtrip:
  assumes "vrans_contract valid V precision"
    and "length (flat indices) = prod_list (shape indices)"
    and "list_all2 (position_ok cdf cdf_length cdf_offset precision) (flat symbols) (flat indices)"
  shows "\<exists>encoded.
      ans_index_encoder V symbols indices cdf cdf_length cdf_offset precision OVERFLOW_WIDTH =
        Inr (encoded, drop 1 (shape symbols)) \<and>
      ans_index_decoder V encoded indices cdf cdf_length cdf_offset precision coding_shape
        OVERFLOW_WIDTH =
        Inr \<lparr>shape = [length (flat symbols)], flat = flat symbols, dtype = Float64\<rparr>"
  using assms by (rule roundtrip_general)

text \<open>
  The theorem at the stack coder of this file, precision 16, one row of four bins of
  width \<open>2 ^ 14\<close> with offset 3, and the symbols 5, 3, 4 of a tensor of shape (1, 3).
\<close>

theorem ans_index_roundtrip_witness:
  "\<exists>encoded.
      ans_index_encoder rans \<lparr>shape = [1, 3], flat = [5, 3, 4]\<rparr>
        \<lparr>shape = [1, 3], flat = [0, 0, 0]\<rparr>
        [[0, 16384, 32768, 49152, 65536]] [5] [3] 16 OVERFLOW_WIDTH = Inr (encoded, [3]) \<and>
      ans_index_decoder rans encoded \<lparr>shape = [1, 3], flat = [0, 0, 0]\<rparr>
        [[0, 16384, 32768, 49152, 65536]] [5] [3] 16 [3] OVERFLOW_WIDTH =
        Inr \<lparr>shape = [3], flat = [5, 3, 4], dtype = Float64\<rparr>"
proof -
  have c: "vrans_contract rans_inv rans 16"
    by (rule rans_contract) simp
  have ok: "list_all2 (position_ok [[0, 16384, 32768, 49152, 65536]] [5] [3] 16)
      [5, 3, 4] [0, 0, 0]"
    by (simp add: position_ok_def cdf_row_ok_def OVERFLOW_CODE_def OVERFLOW_WIDTH_def)
  show ?thesis
    using c ok
      ans_index_roundtrip [where V = rans and valid = rans_inv and precision = 16
        and symbols = "\<lparr>shape = [1, 3], flat = [5, 3, 4]\<rparr>"
        and indices = "\<lparr>shape = [1, 3], flat = [0, 0, 0]\<rparr>"
        and cdf = "[[0, 16384, 32768, 49152, 65536]]" and cdf_length = "[5]"
        and cdf_offset = "[3]" and coding_shape = "[3]"]
    by (simp add: numeral_3_eq_3)
qed

text \<open>
  C1 as stated fails at precision 8: the row \<open>[0, 128, 256]\<close> has total mass
  \<open>2 ^ 8\<close>, the symbol 0 with offset 0 is inside \<open>[0, cdf_length - 2)\<close>, and the
  encoder raises AssertionError when it builds the row's decode-side lookup, so there is
  no stream to decode.
\<close>

theorem ans_index_roundtrip_counterexample:
  "ans_index_encoder rans \<lparr>shape = [1], flat = [0]\<rparr>
     \<lparr>shape = [1], flat = [0]\<rparr> [[0, 128, 256]] [3] [0] 8 OVERFLOW_WIDTH =
     Inl AssertionError"
  by code_simp

section \<open>The escape payload\<close>

text \<open>
  C2 does not hold of the code. With one row \<open>[0, 32768, 65536]\<close> (\<open>max_value = 1\<close>) and
  offset 0, the symbols 5 and \<open>- 3\<close> are clamped to the escape bin 1, and the stream that
  the encoder returns for each of them is the stream of the symbol 1 itself: no overflow
  payload is pushed. The decoder, on that stream, pops the escape bin and returns 1: no
  payload is popped and the shifted value 5 is not recovered.
\<close>

theorem escape_payload_not_coded:
  "ans_index_encoder rans \<lparr>shape = [1], flat = [5]\<rparr> \<lparr>shape = [1], flat = [0]\<rparr>
     [[0, 32768, 65536]] [3] [0] 16 OVERFLOW_WIDTH = Inr ([1, 32768], []) \<and>
   ans_index_encoder rans \<lparr>shape = [1], flat = [- 3]\<rparr> \<lparr>shape = [1], flat = [0]\<rparr>
     [[0, 32768, 65536]] [3] [0] 16 OVERFLOW_WIDTH = Inr ([1, 32768], []) \<and>
   ans_index_encoder rans \<lparr>shape = [1], flat = [1]\<rparr> \<lparr>shape = [1], flat = [0]\<rparr>
     [[0, 32768, 65536]] [3] [0] 16 OVERFLOW_WIDTH = Inr ([1, 32768], []) \<and>
   ans_index_decoder rans [1, 32768] \<lparr>shape = [1], flat = [0]\<rparr>
     [[0, 32768, 65536]] [3] [0] 16 [] OVERFLOW_WIDTH =
     Inr \<lparr>shape = [1], flat = [1], dtype = Float64\<rparr>"
  by code_simp

section \<open>The order of the positions\<close>

text \<open>
  C3, as amended. The encoder's loop over the positions \<open>n, n - 1, \<dots>, 0\<close> pushes the
  last position \<open>n\<close> first, and the decoder's loop over \<open>0, 1, \<dots>, n\<close> pops position 0
  first; so, for a stack coder that meets its contract and positions that the round trip
  covers, the decoder returns the symbols of the encoded tensor in their original order.
  At precision 16, against a single uniform row of 16 bins whose last entry is \<open>2 ^ 16\<close>,
  the symbols 5, 2, 9 are encoded to a stream that decodes to 5, 2, 9, and the symbols
  9, 2, 5 are encoded to another stream.
\<close>

theorem scalar_coder_order:
  assumes "vrans_contract valid V precision"
    and "length (flat indices) = prod_list (shape indices)"
    and "list_all2 (position_ok cdf cdf_length cdf_offset precision) (flat symbols) (flat indices)"
  shows
  "ans_index_encoder_loop V ss ix cdf cdf_length cdf_offset precision
     (rev [0..<Suc n]) message =
     ebind (ans_index_encoder_step V ss ix cdf cdf_length cdf_offset precision message n)
       (ans_index_encoder_loop V ss ix cdf cdf_length cdf_offset precision (rev [0..<n])) \<and>
   ans_index_decoder_loop V ix cdf cdf_length cdf_offset precision [0..<Suc n] state =
     ebind (ans_index_decoder_step V ix cdf cdf_length cdf_offset precision state 0)
       (ans_index_decoder_loop V ix cdf cdf_length cdf_offset precision [Suc 0..<Suc n]) \<and>
   (\<exists>encoded.
      ans_index_encoder V symbols indices cdf cdf_length cdf_offset precision OVERFLOW_WIDTH =
        Inr (encoded, drop 1 (shape symbols)) \<and>
      ans_index_decoder V encoded indices cdf cdf_length cdf_offset precision
        (drop 1 (shape symbols)) OVERFLOW_WIDTH =
        Inr \<lparr>shape = [length (flat symbols)], flat = flat symbols, dtype = Float64\<rparr>) \<and>
   ans_index_encoder rans \<lparr>shape = [3], flat = [5, 2, 9]\<rparr> \<lparr>shape = [3], flat = [0, 0, 0]\<rparr>
     [[0, 4096, 8192, 12288, 16384, 20480, 24576, 28672, 32768, 36864, 40960, 45056, 49152,
       53248, 57344, 61440, 65536]] [17] [0] 16 OVERFLOW_WIDTH = Inr ([2048, 9588736], []) \<and>
   ans_index_decoder rans [2048, 9588736] \<lparr>shape = [3], flat = [0, 0, 0]\<rparr>
     [[0, 4096, 8192, 12288, 16384, 20480, 24576, 28672, 32768, 36864, 40960, 45056, 49152,
       53248, 57344, 61440, 65536]] [17] [0] 16 [] OVERFLOW_WIDTH =
     Inr \<lparr>shape = [3], flat = [5, 2, 9], dtype = Float64\<rparr> \<and>
   ans_index_encoder rans \<lparr>shape = [3], flat = [9, 2, 5]\<rparr> \<lparr>shape = [3], flat = [0, 0, 0]\<rparr>
     [[0, 4096, 8192, 12288, 16384, 20480, 24576, 28672, 32768, 36864, 40960, 45056, 49152,
       53248, 57344, 61440, 65536]] [17] [0] 16 OVERFLOW_WIDTH = Inr ([2048, 5410816], [])"
proof (intro conjI)
  show "ans_index_encoder_loop V ss ix cdf cdf_length cdf_offset precision
     (rev [0..<Suc n]) message =
     ebind (ans_index_encoder_step V ss ix cdf cdf_length cdf_offset precision message n)
       (ans_index_encoder_loop V ss ix cdf cdf_length cdf_offset precision (rev [0..<n]))"
    by simp
  show "ans_index_decoder_loop V ix cdf cdf_length cdf_offset precision [0..<Suc n] state =
     ebind (ans_index_decoder_step V ix cdf cdf_length cdf_offset precision state 0)
       (ans_index_decoder_loop V ix cdf cdf_length cdf_offset precision [Suc 0..<Suc n])"
    by (simp add: upt_conv_Cons del: upt_Suc)
  show "\<exists>encoded.
      ans_index_encoder V symbols indices cdf cdf_length cdf_offset precision OVERFLOW_WIDTH =
        Inr (encoded, drop 1 (shape symbols)) \<and>
      ans_index_decoder V encoded indices cdf cdf_length cdf_offset precision
        (drop 1 (shape symbols)) OVERFLOW_WIDTH =
        Inr \<lparr>shape = [length (flat symbols)], flat = flat symbols, dtype = Float64\<rparr>"
    using assms by (rule roundtrip_general)
  show "ans_index_encoder rans \<lparr>shape = [3], flat = [5, 2, 9]\<rparr>
     \<lparr>shape = [3], flat = [0, 0, 0]\<rparr>
     [[0, 4096, 8192, 12288, 16384, 20480, 24576, 28672, 32768, 36864, 40960, 45056, 49152,
       53248, 57344, 61440, 65536]] [17] [0] 16 OVERFLOW_WIDTH = Inr ([2048, 9588736], [])"
    by code_simp
  show "ans_index_decoder rans [2048, 9588736] \<lparr>shape = [3], flat = [0, 0, 0]\<rparr>
     [[0, 4096, 8192, 12288, 16384, 20480, 24576, 28672, 32768, 36864, 40960, 45056, 49152,
       53248, 57344, 61440, 65536]] [17] [0] 16 [] OVERFLOW_WIDTH =
     Inr \<lparr>shape = [3], flat = [5, 2, 9], dtype = Float64\<rparr>"
    by code_simp
  show "ans_index_encoder rans \<lparr>shape = [3], flat = [9, 2, 5]\<rparr>
     \<lparr>shape = [3], flat = [0, 0, 0]\<rparr>
     [[0, 4096, 8192, 12288, 16384, 20480, 24576, 28672, 32768, 36864, 40960, 45056, 49152,
       53248, 57344, 61440, 65536]] [17] [0] 16 OVERFLOW_WIDTH = Inr ([2048, 5410816], [])"
    by code_simp
qed

text \<open>
  The theorem at the stack coder of this file, precision 16, the uniform row of 16 bins
  with offset 10, and the symbols 15, 12, 19 of a tensor of shape (3): the stream
  decodes to 15, 12, 19.
\<close>

theorem scalar_coder_order_witness:
  "\<exists>encoded.
      ans_index_encoder rans \<lparr>shape = [3], flat = [15, 12, 19]\<rparr>
        \<lparr>shape = [3], flat = [0, 0, 0]\<rparr>
        [[0, 4096, 8192, 12288, 16384, 20480, 24576, 28672, 32768, 36864, 40960, 45056, 49152,
          53248, 57344, 61440, 65536]] [17] [10] 16 OVERFLOW_WIDTH = Inr (encoded, []) \<and>
      ans_index_decoder rans encoded \<lparr>shape = [3], flat = [0, 0, 0]\<rparr>
        [[0, 4096, 8192, 12288, 16384, 20480, 24576, 28672, 32768, 36864, 40960, 45056, 49152,
          53248, 57344, 61440, 65536]] [17] [10] 16 [] OVERFLOW_WIDTH =
        Inr \<lparr>shape = [3], flat = [15, 12, 19], dtype = Float64\<rparr>"
proof -
  have c: "vrans_contract rans_inv rans 16"
    by (rule rans_contract) simp
  have ok: "list_all2 (position_ok
      [[0, 4096, 8192, 12288, 16384, 20480, 24576, 28672, 32768, 36864, 40960, 45056, 49152,
        53248, 57344, 61440, 65536]] [17] [10] 16) [15, 12, 19] [0, 0, 0]"
    by (simp add: position_ok_def cdf_row_ok_def OVERFLOW_CODE_def OVERFLOW_WIDTH_def)
  show ?thesis
    using c ok
      scalar_coder_order [where V = rans and valid = rans_inv and precision = 16
        and symbols = "\<lparr>shape = [3], flat = [15, 12, 19]\<rparr>"
        and indices = "\<lparr>shape = [3], flat = [0, 0, 0]\<rparr>"
        and cdf = "[[0, 4096, 8192, 12288, 16384, 20480, 24576, 28672, 32768, 36864, 40960,
          45056, 49152, 53248, 57344, 61440, 65536]]" and cdf_length = "[17]"
        and cdf_offset = "[10]", THEN conjunct2, THEN conjunct2, THEN conjunct1]
    by (simp add: numeral_3_eq_3)
qed

text \<open>
  C3 as stated fails at precision 8: whether the uniform row of three bins is read as
  \<open>[0, 85, 170, 256]\<close> or, with an escape bin of its own, as \<open>[0, 64, 128, 192, 256]\<close>,
  its last entry is \<open>2 ^ 8\<close> and the encoder raises AssertionError on the symbols
  5, 2, 9.
\<close>

theorem scalar_coder_order_counterexample:
  "ans_index_encoder rans \<lparr>shape = [3], flat = [5, 2, 9]\<rparr> \<lparr>shape = [3], flat = [0, 0, 0]\<rparr>
     [[0, 85, 170, 256]] [4] [0] 8 OVERFLOW_WIDTH = Inl AssertionError \<and>
   ans_index_encoder rans \<lparr>shape = [3], flat = [5, 2, 9]\<rparr> \<lparr>shape = [3], flat = [0, 0, 0]\<rparr>
     [[0, 64, 128, 192, 256]] [5] [0] 8 OVERFLOW_WIDTH = Inl AssertionError"
  by code_simp

section \<open>Clamping to the escape bin\<close>

text \<open>
  The scalar encoder: a shifted value inside \<open>[0, max_value)\<close> is kept, with overflow 0;
  any other is replaced by \<open>max_value\<close>, with overflow \<open>- 2 v - 1\<close> below the window and
  \<open>2 (v - max_value)\<close> above it.
\<close>

lemma clamp_to_escape_cases:
  "clamp_to_escape v max_value =
     (if 0 \<le> v \<and> v < max_value then (v, 0)
      else (max_value, if v < 0 then - 2 * v - 1 else 2 * (v - max_value)))"
  by (simp add: clamp_to_escape_def)

text \<open>
  C4 holds of the scalar encoder and not of the vectorized one. With \<open>max_value = 10\<close>
  and the shifted values \<open>- 1\<close>, 0, 9, 10, 11, \<open>- 7\<close> (two lanes of three), both clamp
  \<open>- 1\<close>, 10, 11 and \<open>- 7\<close> to the escape bin and keep 0 and 9. The scalar encoder computes
  the overflows 1 and 13 for \<open>- 1\<close> and \<open>- 7\<close>; the vectorized encoder computes 0 for
  both, because its second mask also selects the values that the first update has just
  set to \<open>max_value\<close>.
\<close>

theorem vec_clamp_overflow_overwritten:
  "map (\<lambda>v. clamp_to_escape v 10) [- 1, 0, 9, 10, 11, - 7] =
     [(10, 1), (0, 0), (9, 0), (10, 0), (10, 2), (10, 13)] \<and>
   vec_clamp_to_escape \<lparr>shape = [2, 3], flat = [- 1, 0, 9, 10, 11, - 7]\<rparr>
     \<lparr>shape = [2, 3], flat = [10, 10, 10, 10, 10, 10]\<rparr> =
     Inr (\<lparr>shape = [2, 3], flat = [10, 0, 9, 10, 10, 10]\<rparr>,
          \<lparr>shape = [2, 3], flat = [0, 0, 0, 0, 2, 0]\<rparr>)"
  by code_simp

section \<open>The symbol lookup\<close>

text \<open>
  C5, as amended. For a row whose first \<open>n\<close> entries are non-decreasing, with
  \<open>row[0] \<le> cum_freq\<close>, and whose last valid entry is \<open>2 ^ 16\<close> or \<open>2 ^ 4\<close>, the scalar
  lookup is built and returns the rightmost index among the first \<open>n\<close> entries whose
  entry is at most \<open>cum_freq\<close>, which is the index \<open>i\<close> with
  \<open>row[i] \<le> cum_freq < row[i + 1]\<close> whenever there is one. The vectorized lookup, built
  for rows of any last entry, returns for every element the rightmost such index among
  the first \<open>cdf_i_length[k]\<close> entries of the element's own row.
\<close>

theorem symbol_lookup_rightmost:
  assumes "1 \<le> n" and "n \<le> int (length row)" and "sorted (take (nat n) row)"
    and "row ! 0 \<le> cum_freq"
    and "row ! (nat n - 1) = OVERFLOW_CODE \<or> row ! (nat n - 1) = 2 ^ OVERFLOW_WIDTH"
    and "shape cdf_i = cs @ [w]" and "0 < w"
    and "length (flat cdf_i) = prod_list cs * w"
    and "length (flat cdf_i_length) = prod_list cs"
    and "shape cum_freqs = cs" and "length (flat cum_freqs) = prod_list cs"
    and "\<forall>k<prod_list cs.
           1 \<le> flat cdf_i_length ! k \<and> flat cdf_i_length ! k \<le> int w \<and>
           sorted (take (nat (flat cdf_i_length ! k)) (take w (drop (k * w) (flat cdf_i)))) \<and>
           take w (drop (k * w) (flat cdf_i)) ! 0 \<le> flat cum_freqs ! k"
  shows "(\<exists>f. indexed_cdf_to_dec_statfun row n = Inr f \<and>
            rightmost_index row n cum_freq (f cum_freq) \<and>
            (\<forall>i. interval_index row n cum_freq i \<longrightarrow> f cum_freq = i)) \<and>
         (\<exists>g r. vec_indexed_cdf_to_dec_statfun cdf_i cdf_i_length = Inr g \<and>
            g cum_freqs = Inr r \<and> shape r = cs \<and> length (flat r) = prod_list cs \<and>
            (\<forall>k<prod_list cs.
               rightmost_index (take w (drop (k * w) (flat cdf_i))) (flat cdf_i_length ! k)
                 (flat cum_freqs ! k) (flat r ! k) \<and>
               (\<forall>i. interval_index (take w (drop (k * w) (flat cdf_i)))
                      (flat cdf_i_length ! k) (flat cum_freqs ! k) i \<longrightarrow> flat r ! k = i)))"
proof (intro conjI)
  let ?f = "\<lambda>c. int (searchsorted_right (take (nat n) row) c) - 1"
  have "indexed_cdf_to_dec_statfun row n = Inr ?f"
    using assms(5) by (simp add: indexed_cdf_to_dec_statfun_eq [OF assms(1,2)])
  moreover have "rightmost_index row n cum_freq (?f cum_freq)"
    by (rule search_rightmost [OF assms(1-4)])
  moreover have "\<forall>i. interval_index row n cum_freq i \<longrightarrow> ?f cum_freq = i"
    using search_interval [OF assms(1-3)] by blast
  ultimately show "\<exists>f. indexed_cdf_to_dec_statfun row n = Inr f \<and>
            rightmost_index row n cum_freq (f cum_freq) \<and>
            (\<forall>i. interval_index row n cum_freq i \<longrightarrow> f cum_freq = i)"
    by blast
next
  let ?row = "\<lambda>k. take w (drop (k * w) (flat cdf_i))"
  let ?s = "\<lambda>k. int (searchsorted_right (slice_to (?row k) (flat cdf_i_length ! k))
                      (flat cum_freqs ! k)) - 1"
  from vec_lookup_search [OF assms(6-11)] obtain g where
    g: "vec_indexed_cdf_to_dec_statfun cdf_i cdf_i_length = Inr g"
    and r: "g cum_freqs = Inr \<lparr>shape = cs, flat = map ?s [0..<prod_list cs]\<rparr>"
    by blast
  have "rightmost_index (?row k) (flat cdf_i_length ! k) (flat cum_freqs ! k) (?s k) \<and>
        (\<forall>i. interval_index (?row k) (flat cdf_i_length ! k) (flat cum_freqs ! k) i \<longrightarrow> ?s k = i)"
    if k: "k < prod_list cs" for k
  proof -
    have "k * w + w \<le> prod_list cs * w"
      using k by (metis Suc_leI mult_Suc mult_le_mono1 add.commute)
    then have lr: "length (?row k) = w" using assms(8) by simp
    have h: "1 \<le> flat cdf_i_length ! k" "flat cdf_i_length ! k \<le> int (length (?row k))"
      "sorted (take (nat (flat cdf_i_length ! k)) (?row k))"
      "?row k ! 0 \<le> flat cum_freqs ! k"
      using assms(12) k lr by simp_all
    have sl: "slice_to (?row k) (flat cdf_i_length ! k) =
        take (nat (flat cdf_i_length ! k)) (?row k)"
      using h(1) by (simp add: slice_to_nonneg)
    show ?thesis
      unfolding sl using search_rightmost [OF h] search_interval [OF h(1-3)] by blast
  qed
  then show "\<exists>g r. vec_indexed_cdf_to_dec_statfun cdf_i cdf_i_length = Inr g \<and>
            g cum_freqs = Inr r \<and> shape r = cs \<and> length (flat r) = prod_list cs \<and>
            (\<forall>k<prod_list cs.
               rightmost_index (?row k) (flat cdf_i_length ! k) (flat cum_freqs ! k) (flat r ! k) \<and>
               (\<forall>i. interval_index (?row k) (flat cdf_i_length ! k) (flat cum_freqs ! k) i \<longrightarrow>
                    flat r ! k = i))"
    using g r by (intro exI [of _ g] exI [of _ "\<lparr>shape = cs, flat = map ?s [0..<prod_list cs]\<rparr>"])
      simp
qed

text \<open>
  The theorem on a row of four bins of width \<open>2 ^ 14\<close> at the cumulative frequency
  40000, and on two lanes whose rows have three and four valid entries of a width of
  four, at the cumulative frequencies 200 and 100.
\<close>

theorem symbol_lookup_rightmost_witness:
  "(\<exists>f. indexed_cdf_to_dec_statfun [0, 16384, 32768, 49152, 65536] 5 = Inr f \<and>
      rightmost_index [0, 16384, 32768, 49152, 65536] 5 40000 (f 40000) \<and>
      f 40000 = 2) \<and>
   (\<exists>g r. vec_indexed_cdf_to_dec_statfun
        \<lparr>shape = [2, 4], flat = [0, 128, 256, 0, 0, 64, 128, 256]\<rparr>
        \<lparr>shape = [2], flat = [3, 4]\<rparr> = Inr g \<and>
      g \<lparr>shape = [2], flat = [200, 100]\<rparr> = Inr r \<and> flat r ! 0 = 1 \<and> flat r ! 1 = 1)"
proof -
  have i1: "interval_index [0, 16384, 32768, 49152, 65536] 5 40000 2"
    by (simp add: interval_index_def)
  have i2: "interval_index (take 4 (drop (0 * 4) [0, 128, 256, 0, 0, 64, 128, 256])) 3 200 1"
    "interval_index (take 4 (drop (1 * 4) [0, 128, 256, 0, 0, 64, 128, 256])) 4 100 1"
    by (simp_all add: interval_index_def)
  have h: "\<forall>k<prod_list [2].
           1 \<le> [3, 4 :: int] ! k \<and> [3, 4 :: int] ! k \<le> int 4 \<and>
           sorted (take (nat ([3, 4] ! k))
             (take 4 (drop (k * 4) [0, 128, 256, 0, 0, 64, 128, 256 :: int]))) \<and>
           take 4 (drop (k * 4) [0, 128, 256, 0, 0, 64, 128, 256]) ! 0 \<le> [200, 100 :: int] ! k"
    by (simp add: less_Suc_eq numeral_2_eq_2)
  have "(\<exists>f. indexed_cdf_to_dec_statfun [0, 16384, 32768, 49152, 65536] 5 = Inr f \<and>
            rightmost_index [0, 16384, 32768, 49152, 65536] 5 40000 (f 40000) \<and>
            (\<forall>i. interval_index [0, 16384, 32768, 49152, 65536] 5 40000 i \<longrightarrow> f 40000 = i)) \<and>
         (\<exists>g r. vec_indexed_cdf_to_dec_statfun
              \<lparr>shape = [2, 4], flat = [0, 128, 256, 0, 0, 64, 128, 256]\<rparr>
              \<lparr>shape = [2], flat = [3, 4]\<rparr> = Inr g \<and>
            g \<lparr>shape = [2], flat = [200, 100]\<rparr> = Inr r \<and> shape r = [2] \<and>
            length (flat r) = prod_list [2] \<and>
            (\<forall>k<prod_list [2].
               rightmost_index (take 4 (drop (k * 4) [0, 128, 256, 0, 0, 64, 128, 256]))
                 ([3, 4] ! k) ([200, 100] ! k) (flat r ! k) \<and>
               (\<forall>i. interval_index (take 4 (drop (k * 4) [0, 128, 256, 0, 0, 64, 128, 256]))
                      ([3, 4] ! k) ([200, 100] ! k) i \<longrightarrow> flat r ! k = i)))"
    using h
      symbol_lookup_rightmost [where row = "[0, 16384, 32768, 49152, 65536]" and n = 5
        and cum_freq = 40000 and cs = "[2]" and w = 4
        and cdf_i = "\<lparr>shape = [2, 4], flat = [0, 128, 256, 0, 0, 64, 128, 256]\<rparr>"
        and cdf_i_length = "\<lparr>shape = [2], flat = [3, 4]\<rparr>"
        and cum_freqs = "\<lparr>shape = [2], flat = [200, 100]\<rparr>"]
    by (simp add: OVERFLOW_CODE_def OVERFLOW_WIDTH_def)
  then obtain f g r where
    f: "indexed_cdf_to_dec_statfun [0, 16384, 32768, 49152, 65536] 5 = Inr f"
      "rightmost_index [0, 16384, 32768, 49152, 65536] 5 40000 (f 40000)"
      "\<And>i. interval_index [0, 16384, 32768, 49152, 65536] 5 40000 i \<Longrightarrow> f 40000 = i"
    and g: "vec_indexed_cdf_to_dec_statfun
              \<lparr>shape = [2, 4], flat = [0, 128, 256, 0, 0, 64, 128, 256]\<rparr>
              \<lparr>shape = [2], flat = [3, 4]\<rparr> = Inr g"
      "g \<lparr>shape = [2], flat = [200, 100]\<rparr> = Inr r"
    and v: "\<And>k i. k < prod_list [2] \<Longrightarrow>
         interval_index (take 4 (drop (k * 4) [0, 128, 256, 0, 0, 64, 128, 256]))
           ([3, 4] ! k) ([200, 100] ! k) i \<Longrightarrow> flat r ! k = i"
    by blast
  have "f 40000 = 2" using f(3) [OF i1] .
  moreover have "flat r ! 0 = 1" using v [of 0 1] i2(1) by simp
  moreover have "flat r ! 1 = 1" using v [of 1 1] i2(2) by simp
  ultimately show ?thesis using f(1,2) g by blast
qed

text \<open>
  C5 as stated fails on a row of total mass \<open>2 ^ 8\<close>: the scalar lookup is not built,
  so no cumulative frequency in \<open>[0, 2 ^ 8)\<close> is resolved.
\<close>

theorem symbol_lookup_rightmost_counterexample:
  "indexed_cdf_to_dec_statfun [0, 128, 256] 3 = Inl AssertionError"
  by (simp add: indexed_cdf_to_dec_statfun_eq OVERFLOW_CODE_def OVERFLOW_WIDTH_def)

section \<open>The self-consistency check of the codec\<close>

text \<open>
  C6, as amended. Every pop through the generic symbol codec re-derives the interval of
  the symbol that the cumulative frequency resolves to, and raises AssertionError, in
  place of returning the symbol, unless \<open>start \<le> cum_freq < start + freq\<close>. The
  interval comes from the table of the decode call alone: for every row that the scalar
  coder accepts, and every cumulative frequency from the row's first entry up to its
  total mass, the check holds. So a decode-time row that differs from the encode-time
  row is not detected as long as it is well formed.
\<close>

theorem base_codec_pop_check:
  "pop (snd (base_codec V enc_statfun dec_statfun precision)) message =
     (case enc_statfun (dec_statfun (fst (vrans_pop V message precision))) of
        Inl e \<Rightarrow> Inl e
      | Inr (start, freq) \<Rightarrow>
          if start \<le> fst (vrans_pop V message precision) \<and>
             fst (vrans_pop V message precision) < start + freq
          then
            (case snd (vrans_pop V message precision) start freq of
               Inl e \<Rightarrow> Inl e
             | Inr message' \<Rightarrow>
                 Inr (message', dec_statfun (fst (vrans_pop V message precision))))
          else Inl AssertionError) \<and>
   (cdf_row_ok cdf_i cdf_length_i precision' \<and> cdf_i ! 0 \<le> cum_freq \<and>
    cum_freq < cdf_i ! (nat cdf_length_i - 1) \<longrightarrow>
      (\<exists>dec start freq.
         indexed_cdf_to_dec_statfun cdf_i cdf_length_i = Inr dec \<and>
         indexed_cdf_to_enc_statfun cdf_i (dec cum_freq) = Inr (start, freq) \<and>
         start \<le> cum_freq \<and> cum_freq < start + freq))"
proof (intro conjI impI)
  show "pop (snd (base_codec V enc_statfun dec_statfun precision)) message =
     (case enc_statfun (dec_statfun (fst (vrans_pop V message precision))) of
        Inl e \<Rightarrow> Inl e
      | Inr (start, freq) \<Rightarrow>
          if start \<le> fst (vrans_pop V message precision) \<and>
             fst (vrans_pop V message precision) < start + freq
          then
            (case snd (vrans_pop V message precision) start freq of
               Inl e \<Rightarrow> Inl e
             | Inr message' \<Rightarrow>
                 Inr (message', dec_statfun (fst (vrans_pop V message precision))))
          else Inl AssertionError)"
    by (simp add: base_codec_def Let_def ebind_def py_assert_def
        split: prod.splits sum.splits)
next
  assume "cdf_row_ok cdf_i cdf_length_i precision' \<and> cdf_i ! 0 \<le> cum_freq \<and>
    cum_freq < cdf_i ! (nat cdf_length_i - 1)"
  then show "\<exists>dec start freq.
         indexed_cdf_to_dec_statfun cdf_i cdf_length_i = Inr dec \<and>
         indexed_cdf_to_enc_statfun cdf_i (dec cum_freq) = Inr (start, freq) \<and>
         start \<le> cum_freq \<and> cum_freq < start + freq"
    using wellformed_row_passes_check [of cdf_i cdf_length_i precision' cum_freq] by blast
qed

text \<open>
  The theorem on the row \<open>[0, 32768, 49152, 65536]\<close> at the cumulative frequency 16384,
  which a push of the symbol 1 under the row \<open>[0, 16384, 32768, 65536]\<close> leaves in the
  register: the check holds for the interval \<open>[0, 32768)\<close> of the symbol 0. Under the row
  \<open>[30000, 40000, 50000, 65536]\<close>, whose first entry is above that cumulative frequency,
  the search gives \<open>- 1\<close>, the check fails and the decoder raises AssertionError.
\<close>

theorem base_codec_pop_check_witness:
  "(\<exists>dec. indexed_cdf_to_dec_statfun [0, 32768, 49152, 65536] 4 = Inr dec \<and>
      indexed_cdf_to_enc_statfun [0, 32768, 49152, 65536] (dec 16384) = Inr (0, 32768)) \<and>
   ans_index_decoder rans [2, 16384] \<lparr>shape = [1], flat = [0]\<rparr>
     [[30000, 40000, 50000, 65536]] [4] [0] 16 [] OVERFLOW_WIDTH = Inl AssertionError"
proof -
  have ok: "cdf_row_ok [0, 32768, 49152, 65536] 4 16 \<and>
      [0, 32768, 49152, 65536] ! 0 \<le> (16384 :: int) \<and>
      (16384 :: int) < [0, 32768, 49152, 65536] ! (nat 4 - 1)"
    by (simp add: cdf_row_ok_def OVERFLOW_CODE_def OVERFLOW_WIDTH_def)
  have "\<exists>dec start freq.
      indexed_cdf_to_dec_statfun [0, 32768, 49152, 65536] 4 = Inr dec \<and>
      indexed_cdf_to_enc_statfun [0, 32768, 49152, 65536] (dec 16384) = Inr (start, freq) \<and>
      start \<le> 16384 \<and> 16384 < start + freq"
    using ok
      base_codec_pop_check [where cdf_i = "[0, 32768, 49152, 65536]" and cdf_length_i = 4
        and precision' = 16 and cum_freq = 16384, THEN conjunct2]
    by blast
  then obtain dec start freq where
    d: "indexed_cdf_to_dec_statfun [0, 32768, 49152, 65536] 4 = Inr dec"
    and e: "indexed_cdf_to_enc_statfun [0, 32768, 49152, 65536] (dec 16384) = Inr (start, freq)"
    and b: "start \<le> 16384" "16384 < start + freq"
    by blast
  have "dec = (\<lambda>c. int (searchsorted_right (take (nat 4) [0, 32768, 49152, 65536]) c) - 1)"
    using d by (simp add: indexed_cdf_to_dec_statfun_eq OVERFLOW_CODE_def OVERFLOW_WIDTH_def)
  moreover have "searchsorted_right (take (nat 4) [0, 32768, 49152, 65536]) 16384 = Suc 0"
    by (rule searchsorted_right_interval) simp_all
  ultimately have "dec 16384 = 0" by simp
  then have "\<exists>dec. indexed_cdf_to_dec_statfun [0, 32768, 49152, 65536] 4 = Inr dec \<and>
      indexed_cdf_to_enc_statfun [0, 32768, 49152, 65536] (dec 16384) = Inr (0, 32768)"
    using d by (simp add: indexed_cdf_to_enc_statfun_def getitem_def)
  moreover have "ans_index_decoder rans [2, 16384] \<lparr>shape = [1], flat = [0]\<rparr>
     [[30000, 40000, 50000, 65536]] [4] [0] 16 [] OVERFLOW_WIDTH = Inl AssertionError"
    by code_simp
  ultimately show ?thesis by blast
qed

text \<open>
  C6 as stated fails when the decode-time row differs from the encode-time row and is
  well formed: the symbol 1 (no offset) encoded under \<open>[0, 16384, 32768, 65536]\<close> and
  decoded under \<open>[0, 32768, 49152, 65536]\<close> comes back as 0, without an abort.
\<close>

theorem base_codec_pop_check_counterexample:
  "ans_index_encoder rans \<lparr>shape = [1], flat = [1]\<rparr> \<lparr>shape = [1], flat = [0]\<rparr>
     [[0, 16384, 32768, 65536]] [4] [0] 16 OVERFLOW_WIDTH = Inr ([2, 16384], []) \<and>
   ans_index_decoder rans [2, 16384] \<lparr>shape = [1], flat = [0]\<rparr>
     [[0, 32768, 49152, 65536]] [4] [0] 16 [] OVERFLOW_WIDTH =
     Inr \<lparr>shape = [1], flat = [0], dtype = Float64\<rparr>"
  by code_simp

section \<open>The precision warning\<close>

text \<open>
  C7. Constructing a codec emits the warning exactly when the precision is at least 24:
  it is emitted at precision 24 and not at precision 23. The warning is a value beside
  the codec, not an error, and the codec's \<open>push\<close> and \<open>pop\<close> are the same functions of
  the lookups and the precision whether or not it was emitted.
\<close>

theorem base_codec_warning:
  "(fst (base_codec V enc_statfun dec_statfun precision) \<noteq> []) = (24 \<le> precision) \<and>
   fst (base_codec V enc_statfun dec_statfun 24) \<noteq> [] \<and>
   fst (base_codec V enc_statfun dec_statfun 23) = [] \<and>
   push (snd (base_codec V enc_statfun dec_statfun precision)) message symbol =
     ebind (enc_statfun symbol) (\<lambda>(start, freq). vrans_push V message start freq precision) \<and>
   pop (snd (base_codec V enc_statfun dec_statfun precision)) message =
     ebind (enc_statfun (dec_statfun (fst (vrans_pop V message precision)))) (\<lambda>(start, freq).
     ebind (py_assert (start \<le> fst (vrans_pop V message precision) \<and>
                       fst (vrans_pop V message precision) < start + freq)) (\<lambda>_.
     ebind (snd (vrans_pop V message precision) start freq) (\<lambda>message'.
     Inr (message', dec_statfun (fst (vrans_pop V message precision))))))"
  by (simp add: base_codec_def Let_def split: prod.splits)

section \<open>The coding shape of the scalar encoder\<close>

text \<open>
  C8, as amended. Whenever \<^verbatim>\<open>ans_index_encoder\<close> returns, the \<^verbatim>\<open>coding_shape\<close>
  component of its result is the shape of the symbol tensor without its first axis
  (\<^verbatim>\<open>symbols.shape[1:]\<close>), whatever the symbols, the table and the stack coder are.
\<close>

theorem ans_index_encoder_coding_shape:
  assumes "ans_index_encoder V symbols indices cdf cdf_length cdf_offset precision overflow_width =
     Inr (encoded, coding_shape)"
  shows "coding_shape = drop 1 (shape symbols)"
  using assms by (rule encoder_coding_shape)

theorem ans_index_encoder_coding_shape_witness:
  "ans_index_encoder rans \<lparr>shape = [2, 2], flat = [0, 1, 1, 0]\<rparr>
     \<lparr>shape = [2, 2], flat = [0, 0, 0, 0]\<rparr>
     [[0, 16384, 32768, 65536]] [4] [0] 16 OVERFLOW_WIDTH = Inr ([128, 327680], [2]) \<and>
   [2] = drop 1 (shape \<lparr>shape = [2, 2], flat = [0, 1, 1, 0 :: int]\<rparr>)"
proof -
  have e: "ans_index_encoder rans \<lparr>shape = [2, 2], flat = [0, 1, 1, 0]\<rparr>
     \<lparr>shape = [2, 2], flat = [0, 0, 0, 0]\<rparr>
     [[0, 16384, 32768, 65536]] [4] [0] 16 OVERFLOW_WIDTH = Inr ([128, 327680], [2])"
    by code_simp
  show ?thesis
    using e ans_index_encoder_coding_shape [OF e] by blast
qed

text \<open>
  C8 as stated fails on a tensor of shape (1, 3): the encoder returns the coding shape
  (3), not the original shape (1, 3).
\<close>

theorem ans_index_encoder_coding_shape_counterexample:
  "map_sum id snd
     (ans_index_encoder rans \<lparr>shape = [1, 3], flat = [5, 3, 4]\<rparr>
        \<lparr>shape = [1, 3], flat = [0, 0, 0]\<rparr>
        [[0, 16384, 32768, 49152, 65536]] [5] [3] 16 OVERFLOW_WIDTH) = Inr [3] \<and>
   shape \<lparr>shape = [1, 3], flat = [5, 3, 4 :: int]\<rparr> \<noteq> [3]"
  by code_simp

section \<open>The total mass that the scalar lookup accepts\<close>

text \<open>
  C9, as amended. Building the scalar decode-side lookup for a row with \<open>n\<close> valid
  entries, \<open>1 \<le> n\<close> and \<open>n\<close> at most the row's length, raises AssertionError unless the
  entry at index \<open>n - 1\<close> is \<open>2 ^ 16 = 65536\<close> or \<open>2 ^ 4 = 16\<close>, and otherwise gives the
  lookup. So every scalar decode that returns has used, at every position, an index of
  the table whose row has total mass \<open>2 ^ 16\<close> or \<open>2 ^ 4\<close>.
\<close>

theorem scalar_lookup_total_mass:
  "(1 \<le> n \<and> n \<le> int (length cdf_i) \<longrightarrow>
      indexed_cdf_to_dec_statfun cdf_i n =
        (if cdf_i ! (nat n - 1) = 65536 \<or> cdf_i ! (nat n - 1) = 16
         then Inr (\<lambda>cum_freq. int (searchsorted_right (take (nat n) cdf_i) cum_freq) - 1)
         else Inl AssertionError)) \<and>
   (ans_index_decoder V encoded indices cdf cdf_length cdf_offset precision coding_shape
      overflow_width = Inr decoded \<longrightarrow>
      (\<forall>i<length (flat indices).
         0 \<le> astype_int32 (flat indices ! i) \<and>
         astype_int32 (flat indices ! i) < int (length cdf) \<and>
         (row_total cdf cdf_length (astype_int32 (flat indices ! i)) = 65536 \<or>
          row_total cdf cdf_length (astype_int32 (flat indices ! i)) = 16)))"
proof (intro conjI impI)
  assume "1 \<le> n \<and> n \<le> int (length cdf_i)"
  then show "indexed_cdf_to_dec_statfun cdf_i n =
        (if cdf_i ! (nat n - 1) = 65536 \<or> cdf_i ! (nat n - 1) = 16
         then Inr (\<lambda>cum_freq. int (searchsorted_right (take (nat n) cdf_i) cum_freq) - 1)
         else Inl AssertionError)"
    by (simp add: indexed_cdf_to_dec_statfun_eq OVERFLOW_CODE_def OVERFLOW_WIDTH_def)
next
  assume "ans_index_decoder V encoded indices cdf cdf_length cdf_offset precision coding_shape
      overflow_width = Inr decoded"
  from decoder_result [OF this]
  show "\<forall>i<length (flat indices).
         0 \<le> astype_int32 (flat indices ! i) \<and>
         astype_int32 (flat indices ! i) < int (length cdf) \<and>
         (row_total cdf cdf_length (astype_int32 (flat indices ! i)) = 65536 \<or>
          row_total cdf cdf_length (astype_int32 (flat indices ! i)) = 16)"
    by (simp add: OVERFLOW_CODE_def OVERFLOW_WIDTH_def)
qed

text \<open>
  The theorem on a row of total mass \<open>2 ^ 8\<close>, which is refused, on a row of total mass
  \<open>2 ^ 4\<close>, which is accepted, and on a decode that returns, whose only row has total
  mass \<open>2 ^ 16\<close>.
\<close>

theorem scalar_lookup_total_mass_witness:
  "indexed_cdf_to_dec_statfun [0, 64, 128, 256] 4 = Inl AssertionError \<and>
   indexed_cdf_to_dec_statfun [0, 8, 16] 3 =
     Inr (\<lambda>cum_freq. int (searchsorted_right (take (nat 3) [0, 8, 16]) cum_freq) - 1) \<and>
   ans_index_decoder rans [32, 294912] \<lparr>shape = [1, 3], flat = [0, 0, 0]\<rparr>
     [[0, 16384, 32768, 49152, 65536]] [5] [3] 16 [3] OVERFLOW_WIDTH =
     Inr \<lparr>shape = [3], flat = [5, 3, 4], dtype = Float64\<rparr> \<and>
   row_total [[0, 16384, 32768, 49152, 65536]] [5] (astype_int32 0) = 65536"
proof -
  have d: "ans_index_decoder rans [32, 294912] \<lparr>shape = [1, 3], flat = [0, 0, 0]\<rparr>
     [[0, 16384, 32768, 49152, 65536]] [5] [3] 16 [3] OVERFLOW_WIDTH =
     Inr \<lparr>shape = [3], flat = [5, 3, 4], dtype = Float64\<rparr>"
    by code_simp
  have "row_total [[0, 16384, 32768, 49152, 65536]] [5] (astype_int32 0) = 65536 \<or>
        row_total [[0, 16384, 32768, 49152, 65536]] [5] (astype_int32 0) = 16"
    using d
      scalar_lookup_total_mass [where V = rans and encoded = "[32, 294912]"
        and indices = "\<lparr>shape = [1, 3], flat = [0, 0, 0]\<rparr>"
        and cdf = "[[0, 16384, 32768, 49152, 65536]]" and cdf_length = "[5]"
        and cdf_offset = "[3]" and precision = 16 and coding_shape = "[3]"
        and overflow_width = OVERFLOW_WIDTH
        and decoded = "\<lparr>shape = [3], flat = [5, 3, 4], dtype = Float64\<rparr>",
        THEN conjunct2]
    by auto
  moreover have "row_total [[0, 16384, 32768, 49152, 65536]] [5] (astype_int32 0) \<noteq> 16"
    by (simp add: row_total_def astype_int32_def)
  moreover have "indexed_cdf_to_dec_statfun [0, 64, 128, 256] 4 = Inl AssertionError"
    using scalar_lookup_total_mass [where cdf_i = "[0, 64, 128, 256]" and n = 4,
        THEN conjunct1]
    by simp
  moreover have "indexed_cdf_to_dec_statfun [0, 8, 16] 3 =
     Inr (\<lambda>cum_freq. int (searchsorted_right (take (nat 3) [0, 8, 16]) cum_freq) - 1)"
    using scalar_lookup_total_mass [where cdf_i = "[0, 8, 16]" and n = 3, THEN conjunct1]
    by simp
  ultimately show ?thesis using d by blast
qed

text \<open>
  C9 as stated fails for the vectorized decoder, whose lookup makes no such check: at
  precision 8, with the single row \<open>[0, 64, 128, 256]\<close> of total mass \<open>2 ^ 8\<close>, two lanes
  of two positions are decoded from a stream of four words, and the call returns.
\<close>

theorem scalar_lookup_total_mass_counterexample:
  "vec_ans_index_decoder vec_rans no_patches [8, 8, 64, 256]
     \<lparr>shape = [2, 2], flat = [0, 0, 0, 0]\<rparr> [[0, 64, 128, 256]] [4] [0] 8 [2] =
     Inr \<lparr>shape = [2, 2], flat = [1, 0, 0, 1]\<rparr> \<and>
   row_total [[0, 64, 128, 256]] [4] 0 = 256"
  by code_simp

section \<open>The result of the scalar decoder\<close>

text \<open>
  C10. Whenever \<^verbatim>\<open>ans_index_decoder\<close> returns, the result is a float64 array of one
  axis whose length is the number of elements of the index tensor's shape; and the call
  gives the same result for every \<^verbatim>\<open>coding_shape\<close> argument, which is never used to
  reshape it.
\<close>

theorem ans_index_decoder_result:
  assumes "ans_index_decoder V encoded indices cdf cdf_length cdf_offset precision coding_shape
     overflow_width = Inr decoded"
  shows "dtype decoded = Float64 \<and> shape decoded = [prod_list (shape indices)] \<and>
         length (flat decoded) = prod_list (shape indices) \<and>
         ans_index_decoder V encoded indices cdf cdf_length cdf_offset precision coding_shape'
           overflow_width = Inr decoded"
  using decoder_result [OF assms] assms
    decoder_ignores_coding_shape [of V encoded indices cdf cdf_length cdf_offset precision
      coding_shape' overflow_width coding_shape]
  by simp

text \<open>
  The theorem on the stream of the symbols 5, 3, 4 of an index tensor of shape (1, 3):
  the result has shape (3), and the coding shape (7, 7) gives it as well as (3).
\<close>

theorem ans_index_decoder_result_witness:
  "ans_index_decoder rans [32, 294912] \<lparr>shape = [1, 3], flat = [0, 0, 0]\<rparr>
     [[0, 16384, 32768, 49152, 65536]] [5] [3] 16 [3] OVERFLOW_WIDTH =
     Inr \<lparr>shape = [3], flat = [5, 3, 4], dtype = Float64\<rparr> \<and>
   ans_index_decoder rans [32, 294912] \<lparr>shape = [1, 3], flat = [0, 0, 0]\<rparr>
     [[0, 16384, 32768, 49152, 65536]] [5] [3] 16 [7, 7] OVERFLOW_WIDTH =
     Inr \<lparr>shape = [3], flat = [5, 3, 4], dtype = Float64\<rparr>"
proof -
  have d: "ans_index_decoder rans [32, 294912]
     \<lparr>shape = [1, 3], flat = [0, 0, 0]\<rparr>
     [[0, 16384, 32768, 49152, 65536]] [5] [3] 16 [3] OVERFLOW_WIDTH =
     Inr \<lparr>shape = [3], flat = [5, 3, 4], dtype = Float64\<rparr>"
    by code_simp
  show ?thesis
    using d ans_index_decoder_result [OF d, of "[7, 7]"] by simp
qed

end
